theory Spec2Isabelle
  imports Main "HOL-Library.AList" "HOL-Library.Char_ord" "HOL-Library.List_Lexorder"
begin

section \<open>Strings and paths\<close>

text \<open>
  The program is \<^verbatim>\<open>src/pics.py\<close>. Its strings are Python \<^verbatim>\<open>str\<close> values; here a
  string is a list of \<^typ>\<open>char\<close>, each read as one code point below 256. The library
  functions the program calls (\<^verbatim>\<open>str.lower\<close>, \<^verbatim>\<open>str.strip\<close>, the \<^verbatim>\<open>pathlib\<close> properties
  \<^verbatim>\<open>name\<close>, \<^verbatim>\<open>stem\<close>, \<^verbatim>\<open>suffix\<close>, \<^verbatim>\<open>with_name\<close>) are written out as CPython (up to 3.13)
  defines them on such strings.
\<close>

text \<open>
  \<^verbatim>\<open>str.lower\<close> below code point 256: the letters A to Z and the accented capitals 192 to 222
  (without the multiplication sign 215) move up by 32, which sets the bit of value 32.
\<close>

definition lower_char :: "char \<Rightarrow> char" where
  "lower_char c =
     (let n = (of_char c :: nat)
      in if (65 \<le> n \<and> n \<le> 90) \<or> (192 \<le> n \<and> n \<le> 222 \<and> n \<noteq> 215)
         then (case c of Char b0 b1 b2 b3 b4 b5 b6 b7 \<Rightarrow> Char b0 b1 b2 b3 b4 True b6 b7)
         else c)"

definition lower :: "string \<Rightarrow> string" where
  "lower s = map lower_char s"

definition is_space :: "char \<Rightarrow> bool" where
  "is_space c =
     (let n = (of_char c :: nat)
      in (9 \<le> n \<and> n \<le> 13) \<or> (28 \<le> n \<and> n \<le> 32) \<or> n = 133 \<or> n = 160)"

definition strip :: "string \<Rightarrow> string" where
  "strip s = rev (dropWhile is_space (rev (dropWhile is_space s)))"

text \<open>\<^verbatim>\<open>sub in s\<close> on strings: \<open>sub\<close> occurs as a contiguous block of \<open>s\<close>.\<close>

fun contains :: "string \<Rightarrow> string \<Rightarrow> bool" where
  "contains sub [] = (sub = [])"
| "contains sub (x # xs) = (take (length sub) (x # xs) = sub \<or> contains sub xs)"

text \<open>\<^verbatim>\<open>s.rfind(c)\<close>: the index of the last occurrence, \<open>None\<close> for Python's \<open>-1\<close>.\<close>

fun rfind :: "char \<Rightarrow> string \<Rightarrow> nat option" where
  "rfind c [] = None"
| "rfind c (x # xs) =
     (case rfind c xs of
        Some i \<Rightarrow> Some (Suc i)
      | None \<Rightarrow> if x = c then Some 0 else None)"

text \<open>
  A path is the list of its components below the root; the empty list is the root itself,
  whose \<^verbatim>\<open>name\<close> is the empty string.
\<close>

type_synonym path = "string list"

definition name :: "path \<Rightarrow> string" where
  "name p = (if p = [] then [] else last p)"

definition parent :: "path \<Rightarrow> path" where
  "parent p = butlast p"

definition suffix :: "path \<Rightarrow> string" where
  "suffix p =
     (let n = name p
      in case rfind CHR ''.'' n of
           None \<Rightarrow> []
         | Some i \<Rightarrow> if 0 < i \<and> i + 1 < length n then drop i n else [])"

definition stem :: "path \<Rightarrow> string" where
  "stem p =
     (let n = name p
      in case rfind CHR ''.'' n of
           None \<Rightarrow> n
         | Some i \<Rightarrow> if 0 < i \<and> i + 1 < length n then take i n else n)"

text \<open>
  The exceptions the program can meet; \<open>CodecError\<close> stands for whatever the image library
  raises when it opens, converts or saves an image.
\<close>

datatype error =
    ValueError
  | FileNotFoundError
  | FileExistsError
  | IsADirectoryError
  | NotADirectoryError
  | SameFileError
  | CodecError
  | RuntimeError

text \<open>\<^verbatim>\<open>with_name\<close> raises \<^verbatim>\<open>ValueError\<close> on a path with an empty name and on an invalid new name.\<close>

definition with_name :: "path \<Rightarrow> string \<Rightarrow> error + path" where
  "with_name p n =
     (if name p = [] then Inl ValueError
      else if n = [] \<or> CHR ''/'' \<in> set n \<or> n = ''.'' then Inl ValueError
      else Inr (butlast p @ [n]))"

section \<open>The file system\<close>

text \<open>
  The file system is an association list from paths to nodes, in the order in which a
  directory walk reports the entries. A file carries its bytes; its size is their number.
  The root always exists; a file may lie in a directory that has no entry of its own.
  Permissions, links, full disks and other processes are outside the model.
\<close>

type_synonym bytes = "nat list"

datatype node = File bytes | Dir

type_synonym fs = "(path \<times> node) list"

definition path_exists :: "fs \<Rightarrow> path \<Rightarrow> bool" where
  "path_exists fs p = (if p = [] then True else case map_of fs p of None \<Rightarrow> False | Some n \<Rightarrow> True)"

definition is_file :: "fs \<Rightarrow> path \<Rightarrow> bool" where
  "is_file fs p = (case map_of fs p of Some (File b) \<Rightarrow> True | _ \<Rightarrow> False)"

definition is_dir :: "fs \<Rightarrow> path \<Rightarrow> bool" where
  "is_dir fs p = (if p = [] then True else map_of fs p = Some Dir)"

text \<open>The bytes of the regular file at a path, if there is one.\<close>

definition file_at :: "fs \<Rightarrow> path \<Rightarrow> bytes option" where
  "file_at fs p = (case map_of fs p of Some (File b) \<Rightarrow> Some b | _ \<Rightarrow> None)"

text \<open>
  \<^verbatim>\<open>p.stat().st_size\<close>. The size reported for a directory depends on the system; the
  program never uses it (it opens the path as an image next, which fails on a directory).
\<close>

definition stat_size :: "fs \<Rightarrow> path \<Rightarrow> error + nat" where
  "stat_size fs p =
     (if p = [] then Inr 0
      else case map_of fs p of
             None \<Rightarrow> Inl FileNotFoundError
           | Some (File b) \<Rightarrow> Inr (length b)
           | Some Dir \<Rightarrow> Inr 0)"

text \<open>\<^verbatim>\<open>p.unlink(missing_ok=...)\<close>.\<close>

definition unlink :: "bool \<Rightarrow> path \<Rightarrow> fs \<Rightarrow> error + fs" where
  "unlink missing_ok p fs =
     (if p = [] then Inl IsADirectoryError
      else case map_of fs p of
             None \<Rightarrow> if missing_ok then Inr fs else Inl FileNotFoundError
           | Some Dir \<Rightarrow> Inl IsADirectoryError
           | Some (File b) \<Rightarrow> Inr (AList.delete p fs))"

text \<open>
  \<^verbatim>\<open>a.rename(b)\<close> for a regular file \<open>a\<close>: an existing file at \<open>b\<close> is replaced, a
  directory at \<open>b\<close> is an error. The program renames regular files only; the model
  reports an error for a directory at \<open>a\<close>.
\<close>

definition rename :: "path \<Rightarrow> path \<Rightarrow> fs \<Rightarrow> error + fs" where
  "rename a b fs =
     (case map_of fs a of
        None \<Rightarrow> Inl FileNotFoundError
      | Some Dir \<Rightarrow> Inl IsADirectoryError
      | Some (File x) \<Rightarrow>
          if is_dir fs b then Inl IsADirectoryError
          else Inr (AList.update b (File x) (AList.delete a fs)))"

text \<open>
  \<^verbatim>\<open>d.mkdir(parents=True, exist_ok=True)\<close>: fails, creating nothing, when \<open>d\<close> or one of
  its ancestors is a regular file; otherwise every missing directory on the way is created.
  \<open>dir_chain d\<close> lists \<open>d\<close> and its ancestors below the root, outermost first.
\<close>

definition dir_chain :: "path \<Rightarrow> path list" where
  "dir_chain d = map (\<lambda>n. take n d) [1..<Suc (length d)]"

definition add_dir :: "path \<Rightarrow> fs \<Rightarrow> fs" where
  "add_dir q fs = (if map_of fs q = None then AList.update q Dir fs else fs)"

definition mkdir_parents :: "path \<Rightarrow> fs \<Rightarrow> error + fs" where
  "mkdir_parents d fs =
     (if list_ex (is_file fs) (dir_chain (butlast d)) then Inl NotADirectoryError
      else if is_file fs d then Inl FileExistsError
      else Inr (fold add_dir (dir_chain d) fs))"

text \<open>
  \<^verbatim>\<open>shutil.copy2(src, dst)\<close>: a directory at \<open>dst\<close> redirects the copy into it under the
  base name of \<open>src\<close>; copying a file onto itself raises \<^verbatim>\<open>SameFileError\<close>.
\<close>

definition copy2 :: "path \<Rightarrow> path \<Rightarrow> fs \<Rightarrow> error + fs" where
  "copy2 src dst fs =
     (let dst' = (if is_dir fs dst then dst @ [name src] else dst)
      in if src = [] then Inl IsADirectoryError
         else case map_of fs src of
                None \<Rightarrow> Inl FileNotFoundError
              | Some Dir \<Rightarrow> Inl IsADirectoryError
              | Some (File b) \<Rightarrow>
                  if dst' = src then Inl SameFileError
                  else if is_dir fs dst' then Inl IsADirectoryError
                  else Inr (AList.update dst' (File b) fs))"

section \<open>The codec\<close>

text \<open>
  The image library (Pillow) is an external collaborator, a parameter of the model:
  \<open>open_image\<close> is \<^verbatim>\<open>Image.open\<close> on the bytes of a file (\<open>None\<close> when it raises),
  \<open>has_alpha\<close> is \<^verbatim>\<open>im.mode in ("RGBA", "LA")\<close>, \<open>flatten_black\<close> pastes the image on a
  black background through its alpha channel, \<open>convert_rgb\<close> is \<^verbatim>\<open>im.convert("RGB")\<close>, and
  \<open>save\<close> is \<^verbatim>\<open>im.save(path, **kwargs)\<close>, given the name of the file to write. A save
  returns or raises, and either way says what it left at the path: some bytes or nothing.
\<close>

datatype kwarg = Quality int | Optimize bool | Progressive bool | Method nat

datatype save_result = Saved "bytes option" | SaveFailed "bytes option"

record 'img codec =
  open_image :: "bytes \<Rightarrow> 'img option"
  has_alpha :: "'img \<Rightarrow> bool"
  flatten_black :: "'img \<Rightarrow> 'img option"
  convert_rgb :: "'img \<Rightarrow> 'img option"
  save :: "'img \<Rightarrow> string \<Rightarrow> kwarg list \<Rightarrow> save_result"

text \<open>\<^verbatim>\<open>Image.open(src)\<close> on the file system.\<close>

definition image_open :: "'img codec \<Rightarrow> path \<Rightarrow> fs \<Rightarrow> error + 'img" where
  "image_open codec src fs =
     (if src = [] then Inl IsADirectoryError
      else case map_of fs src of
             None \<Rightarrow> Inl FileNotFoundError
           | Some Dir \<Rightarrow> Inl IsADirectoryError
           | Some (File b) \<Rightarrow>
               (case open_image codec b of None \<Rightarrow> Inl CodecError | Some im \<Rightarrow> Inr im))"

section \<open>Helpers of the program\<close>

definition IMG_EXTS :: "string set" where
  "IMG_EXTS = {''.jpg'', ''.jpeg'', ''.png'', ''.webp''}"

definition is_marked_d :: "path \<Rightarrow> bool" where
  "is_marked_d p = contains ''[D]'' (stem p)"

definition mark_name :: "path \<Rightarrow> string \<Rightarrow> error + path" where
  "mark_name p new_ext = with_name p (stem p @ ''[D]'' @ new_ext)"

definition safe_tmp_name :: "path \<Rightarrow> error + path" where
  "safe_tmp_name final_path = with_name final_path (stem final_path @ ''.tmp'' @ suffix final_path)"

text \<open>
  The directory walks: \<^verbatim>\<open>folder.rglob("*")\<close> reports every entry below the folder,
  \<^verbatim>\<open>folder.iterdir()\<close> its direct children.
\<close>

definition is_under :: "path \<Rightarrow> path \<Rightarrow> bool" where
  "is_under folder p = (length folder < length p \<and> take (length folder) p = folder)"

definition rglob :: "fs \<Rightarrow> path \<Rightarrow> path list" where
  "rglob fs folder = filter (is_under folder) (map fst fs)"

definition iterdir :: "fs \<Rightarrow> path \<Rightarrow> path list" where
  "iterdir fs folder = filter (\<lambda>p. length p = Suc (length folder) \<and> butlast p = folder) (map fst fs)"

definition folder_size_bytes :: "fs \<Rightarrow> path \<Rightarrow> nat" where
  "folder_size_bytes fs folder =
     sum_list (map (\<lambda>p. case stat_size fs p of Inr n \<Rightarrow> n | Inl e \<Rightarrow> 0)
                   (filter (is_file fs) (rglob fs folder)))"

definition iter_images_flat :: "fs \<Rightarrow> path \<Rightarrow> path list" where
  "iter_images_flat fs folder =
     filter (\<lambda>p. is_file fs p \<and> lower (suffix p) \<in> IMG_EXTS) (sort (iterdir fs folder))"

definition iter_images_recursive :: "fs \<Rightarrow> path \<Rightarrow> path list" where
  "iter_images_recursive fs folder =
     filter (\<lambda>p. is_file fs p \<and> lower (suffix p) \<in> IMG_EXTS) (rglob fs folder)"

text \<open>What \<^verbatim>\<open>im.save\<close> left at the path.\<close>

definition write_result :: "path \<Rightarrow> bytes option \<Rightarrow> fs \<Rightarrow> fs" where
  "write_result p out fs = (case out of None \<Rightarrow> fs | Some b \<Rightarrow> AList.update p (File b) fs)"

definition save_image_to_tmp :: "'img codec \<Rightarrow> 'img \<Rightarrow> path \<Rightarrow> int \<Rightarrow> fs \<Rightarrow> fs \<times> (error + unit)" where
  "save_image_to_tmp codec im tmp_path quality fs =
     (let ext = lower (suffix tmp_path);
          prepared =
            (if ext = ''.jpg'' \<or> ext = ''.jpeg'' then
               (if has_alpha codec im then flatten_black codec im else convert_rgb codec im,
                [Quality quality, Optimize True, Progressive True])
             else if ext = ''.webp'' then (Some im, [Quality quality, Method 6])
             else if ext = ''.png'' then (Some im, [Optimize True])
             else (Some im, []))
      in case fst prepared of
           None \<Rightarrow> (fs, Inl CodecError)
         | Some im' \<Rightarrow>
             (case (if path_exists fs tmp_path then unlink False tmp_path fs else Inr fs) of
                Inl e \<Rightarrow> (fs, Inl e)
              | Inr fs1 \<Rightarrow>
                  (case save codec im' (name tmp_path) (snd prepared) of
                     Saved out \<Rightarrow> (write_result tmp_path out fs1, Inr ())
                   | SaveFailed out \<Rightarrow> (write_result tmp_path out fs1, Inl CodecError))))"

section \<open>The bake engine\<close>

text \<open>
  Each format string of a returned message is a constructor carrying the values the
  program interpolates; the rendering of byte counts (\<^verbatim>\<open>fmt_bytes\<close>, floating point) is
  left out. An outcome is the tuple \<^verbatim>\<open>(won, message, src_size, out_size)\<close>.
\<close>

datatype message =
    SkipMarked string
  | Baked string string nat nat
  | KeptOriginal string

type_synonym outcome = "bool \<times> message \<times> nat \<times> nat"

text \<open>Lines 106 to 111 of \<^verbatim>\<open>bake_one\<close>: the target extension.\<close>

definition target_ext :: "path \<Rightarrow> string \<Rightarrow> string" where
  "target_ext src output_fmt =
     (let src_ext = lower (suffix src)
      in if output_fmt = ''keep'' then src_ext else ''.'' @ output_fmt)"

text \<open>Lines 116 to 119: the optional backup of the original.\<close>

definition backup_original :: "path \<Rightarrow> path option \<Rightarrow> fs \<Rightarrow> fs \<times> (error + unit)" where
  "backup_original src backup_dir fs =
     (case backup_dir of
        None \<Rightarrow> (fs, Inr ())
      | Some d \<Rightarrow>
          (case mkdir_parents d fs of
             Inl e \<Rightarrow> (fs, Inl e)
           | Inr fs1 \<Rightarrow>
               (case copy2 src (d @ [name src]) fs1 of
                  Inl e \<Rightarrow> (fs1, Inl e)
                | Inr fs2 \<Rightarrow> (fs2, Inr ()))))"

text \<open>
  Lines 116 to 129 of \<^verbatim>\<open>bake_one\<close>, named so that statements can speak of the state at the win
  decision: backup, size of the source, re-encoding into the temp path, the check that the
  temp file exists, its size.
\<close>

definition transcode ::
  "'img codec \<Rightarrow> path \<Rightarrow> path \<Rightarrow> int \<Rightarrow> path option \<Rightarrow> fs \<Rightarrow> fs \<times> (error + nat \<times> nat)" where
  "transcode codec src tmp quality backup_dir fs =
     (case backup_original src backup_dir fs of
        (fs1, Inl e) \<Rightarrow> (fs1, Inl e)
      | (fs1, Inr u) \<Rightarrow>
          (case stat_size fs1 src of
             Inl e \<Rightarrow> (fs1, Inl e)
           | Inr src_size \<Rightarrow>
               (case image_open codec src fs1 of
                  Inl e \<Rightarrow> (fs1, Inl e)
                | Inr im \<Rightarrow>
                    (case save_image_to_tmp codec im tmp quality fs1 of
                       (fs2, Inl e) \<Rightarrow> (fs2, Inl e)
                     | (fs2, Inr u') \<Rightarrow>
                         if \<not> path_exists fs2 tmp then (fs2, Inl RuntimeError)
                         else (case stat_size fs2 tmp of
                                 Inl e \<Rightarrow> (fs2, Inl e)
                               | Inr tmp_size \<Rightarrow> (fs2, Inr (src_size, tmp_size)))))))"

text \<open>
  Lines 136 to 144 of \<^verbatim>\<open>bake_one\<close>, the commit of a win, named so that statements can
  speak of this block in any state: the removal of what is at the final path, the rename
  of the temp file, the optional deletion of the original, the \<open>Won\<close> outcome.
\<close>

definition commit_win :: "path \<Rightarrow> path \<Rightarrow> path \<Rightarrow> nat \<Rightarrow> nat \<Rightarrow> bool \<Rightarrow> fs \<Rightarrow> fs \<times> (error + outcome)" where
  "commit_win src final tmp src_size tmp_size delete_original_on_win fs2 =
     (case (if path_exists fs2 final then unlink False final fs2 else Inr fs2) of
        Inl e \<Rightarrow> (fs2, Inl e)
      | Inr fs3 \<Rightarrow>
     (case rename tmp final fs3 of
        Inl e \<Rightarrow> (fs3, Inl e)
      | Inr fs4 \<Rightarrow>
     (case (if delete_original_on_win then unlink True src fs4 else Inr fs4) of
        Inl e \<Rightarrow> (fs4, Inl e)
      | Inr fs5 \<Rightarrow>
          (fs5, Inr (True, Baked (name src) (name final) src_size tmp_size,
                     src_size, tmp_size)))))"

definition bake_one ::
  "'img codec \<Rightarrow> path \<Rightarrow> string \<Rightarrow> int \<Rightarrow> bool \<Rightarrow> path option \<Rightarrow> bool \<Rightarrow> fs
     \<Rightarrow> fs \<times> (error + outcome)" where
  "bake_one codec src output_fmt quality delete_original_on_win backup_dir skip_if_marked fs =
     (if skip_if_marked \<and> is_marked_d src then (fs, Inr (False, SkipMarked (name src), 0, 0))
      else case mark_name src (target_ext src output_fmt) of
             Inl e \<Rightarrow> (fs, Inl e)
           | Inr final \<Rightarrow>
      (case safe_tmp_name final of
         Inl e \<Rightarrow> (fs, Inl e)
       | Inr tmp \<Rightarrow>
      (case transcode codec src tmp quality backup_dir fs of
         (fs2, Inl e) \<Rightarrow> (fs2, Inl e)
       | (fs2, Inr (src_size, tmp_size)) \<Rightarrow>
           let won = (if output_fmt = ''keep'' then tmp_size < src_size else True)
           in if won then
                commit_win src final tmp src_size tmp_size delete_original_on_win fs2
              else
                (case unlink True tmp fs2 of
                   Inl e \<Rightarrow> (fs2, Inl e)
                 | Inr fs3 \<Rightarrow> (fs3, Inr (False, KeptOriginal (name src), src_size, src_size))))))"

section \<open>The batch drivers\<close>

text \<open>
  A driver ends with its summary or aborts: by an exception nobody catches or by
  \<^verbatim>\<open>SystemExit\<close> with a message, and the interpreter's exit status is 1 for both. The summary
  is kept as its numbers; progress lines are not modelled.
\<close>

datatype abort = Uncaught error | SystemExit string

fun exit_status :: "abort \<Rightarrow> nat" where
  "exit_status (Uncaught e) = 1"
| "exit_status (SystemExit m) = 1"

record summary =
  total :: nat
  baked :: nat
  kept :: nat
  errors :: nat
  size_before :: nat
  size_after :: nat

text \<open>The loop of \<^verbatim>\<open>run_folder_mode\<close> (lines 178 to 196), on the state and the three counters.\<close>

fun folder_loop ::
  "'img codec \<Rightarrow> string \<Rightarrow> int \<Rightarrow> bool \<Rightarrow> path option \<Rightarrow> bool \<Rightarrow> path list
     \<Rightarrow> fs \<times> nat \<times> nat \<times> nat \<Rightarrow> fs \<times> nat \<times> nat \<times> nat" where
  "folder_loop codec output_fmt quality del backup_dir skip [] st = st"
| "folder_loop codec output_fmt quality del backup_dir skip (src # files) (fs, b, k, e) =
     (case bake_one codec src output_fmt quality del backup_dir skip fs of
        (fs', Inr (won, message, s1, s2)) \<Rightarrow>
          folder_loop codec output_fmt quality del backup_dir skip files
            (if won then (fs', b + 1, k, e) else (fs', b, k + 1, e))
      | (fs', Inl err) \<Rightarrow>
          folder_loop codec output_fmt quality del backup_dir skip files (fs', b, k, e + 1))"

definition run_folder_mode ::
  "'img codec \<Rightarrow> path \<Rightarrow> string \<Rightarrow> int \<Rightarrow> bool \<Rightarrow> path option \<Rightarrow> bool \<Rightarrow> bool \<Rightarrow> fs
     \<Rightarrow> fs \<times> (abort + summary)" where
  "run_folder_mode codec input_dir output_fmt quality del backup_dir skip recursive fs =
     (if \<not> is_dir fs input_dir then (fs, Inl (Uncaught FileNotFoundError))
      else
        let before = folder_size_bytes fs input_dir;
            files = (if recursive then iter_images_recursive fs input_dir
                     else iter_images_flat fs input_dir)
        in case folder_loop codec output_fmt quality del backup_dir skip files (fs, 0, 0, 0) of
             (fs', b, k, e) \<Rightarrow>
               (fs', Inr \<lparr>total = length files, baked = b, kept = k, errors = e,
                          size_before = before, size_after = folder_size_bytes fs' input_dir\<rparr>))"

text \<open>\<^verbatim>\<open>default_all_roots\<close>, with the home directory as a parameter.\<close>

definition default_all_roots :: "path \<Rightarrow> fs \<Rightarrow> path list" where
  "default_all_roots home fs =
     (let shared = home @ [''storage'', ''shared''];
          candidates =
            [shared @ [''DCIM''],
             shared @ [''Pictures''],
             shared @ [''Download''],
             shared @ [''WhatsApp'', ''Media''],
             shared @ [''Telegram'']]
      in filter (path_exists fs) candidates)"

definition required :: string where
  "required = ''I UNDERSTAND THIS DELETES ORIGINALS''"

text \<open>The message of the refusal; code 10 is the line feed, code 34 the double quote.\<close>

definition refusal :: string where
  "refusal =
     [CHR 0x0A] @ ''REFUSING: --delete-originals requires --confirm '' @ [CHR 0x22] @ required
       @ [CHR 0x22, CHR 0x0A]"

text \<open>Lines 249 to 256 of \<^verbatim>\<open>run_all_mode\<close>: the candidate list.\<close>

definition all_mode_files :: "fs \<Rightarrow> path list \<Rightarrow> bool \<Rightarrow> path list" where
  "all_mode_files fs roots skip =
     (let all_files = concat (map (iter_images_recursive fs) roots);
          files = filter (\<lambda>p. lower (suffix p) \<in> IMG_EXTS) all_files
      in if skip then filter (\<lambda>p. \<not> is_marked_d p) files else files)"

text \<open>The loop of \<^verbatim>\<open>run_all_mode\<close> (lines 267 to 285).\<close>

fun all_loop ::
  "'img codec \<Rightarrow> string \<Rightarrow> int \<Rightarrow> bool \<Rightarrow> path option \<Rightarrow> bool \<Rightarrow> path list
     \<Rightarrow> fs \<times> nat \<times> nat \<times> nat \<Rightarrow> fs \<times> nat \<times> nat \<times> nat" where
  "all_loop codec output_fmt quality del backup_dir skip [] st = st"
| "all_loop codec output_fmt quality del backup_dir skip (src # files) (fs, b, k, e) =
     (case bake_one codec src output_fmt quality del backup_dir skip fs of
        (fs', Inr (won, message, s1, s2)) \<Rightarrow>
          all_loop codec output_fmt quality del backup_dir skip files
            (if won then (fs', b + 1, k, e) else (fs', b, k + 1, e))
      | (fs', Inl err) \<Rightarrow>
          all_loop codec output_fmt quality del backup_dir skip files (fs', b, k, e + 1))"

definition run_all_mode ::
  "'img codec \<Rightarrow> path \<Rightarrow> string \<Rightarrow> int \<Rightarrow> bool \<Rightarrow> path option \<Rightarrow> bool \<Rightarrow> string \<Rightarrow> fs
     \<Rightarrow> fs \<times> (abort + summary)" where
  "run_all_mode codec home output_fmt quality del backup_dir skip confirm fs =
     (if del \<and> strip confirm \<noteq> required then
        (fs, Inl (SystemExit refusal))
      else
        let roots = default_all_roots home fs
        in if roots = [] then
             (fs, Inl (SystemExit ''No default image roots found. (Need Termux storage access?)''))
           else
             let total_before = sum_list (map (folder_size_bytes fs) roots);
                 files = all_mode_files fs roots skip
             in case all_loop codec output_fmt quality del backup_dir skip files (fs, 0, 0, 0) of
                  (fs', b, k, e) \<Rightarrow>
                    (fs', Inr \<lparr>total = length files, baked = b, kept = k, errors = e,
                               size_before = total_before,
                               size_after = sum_list (map (folder_size_bytes fs') roots)\<rparr>))"

section \<open>Entries of a path, and inputs for concrete runs\<close>

text \<open>The number of entries the file system holds for a path.\<close>

definition entries_at :: "fs \<Rightarrow> path \<Rightarrow> nat" where
  "entries_at fs p = length (filter (\<lambda>e. fst e = p) fs)"

text \<open>
  A codec and a directory for concrete runs: an image is the bytes of its file, an empty
  file is no image, and re-encoding turns 100 bytes into 90, 200 into 250 and leaves any
  other file as it is.
\<close>

definition reencode :: "bytes \<Rightarrow> bytes" where
  "reencode im =
     (if length im = 100 then replicate 90 0
      else if length im = 200 then replicate 250 0 else im)"

definition example_codec :: "bytes codec" where
  "example_codec =
     \<lparr>open_image = (\<lambda>b. if b = [] then None else Some b),
      has_alpha = (\<lambda>im. False),
      flatten_black = Some,
      convert_rgb = Some,
      save = (\<lambda>im n kw. Saved (Some (reencode im)))\<rparr>"

definition example_fs :: fs where
  "example_fs =
     [([''d''], Dir),
      ([''d'', ''a.jpg''], File (replicate 100 7)),
      ([''d'', ''b.jpg''], File (replicate 200 7)),
      ([''d'', ''c.jpg''], File (replicate 50 7))]"

text \<open>
  A codec whose save raises after it has written one byte, and a directory with a source
  that is no image (an empty file) next to a temp file left by an earlier, interrupted run.
\<close>

definition truncating_codec :: "bytes codec" where
  "truncating_codec =
     \<lparr>open_image = (\<lambda>b. if b = [] then None else Some b),
      has_alpha = (\<lambda>im. False),
      flatten_black = Some,
      convert_rgb = Some,
      save = (\<lambda>im n kw. SaveFailed (Some [0]))\<rparr>"

definition stale_fs :: fs where
  "stale_fs =
     [([''d''], Dir),
      ([''d'', ''x.jpg''], File []),
      ([''d'', ''x[D].tmp.jpg''], File [1, 2, 3])]"

text \<open>
  A device whose camera folder holds one image that an earlier run has marked, and a
  device whose camera folder is empty.
\<close>

definition dcim :: path where
  "dcim = [''home'', ''storage'', ''shared'', ''DCIM'']"

definition marked_fs :: fs where
  "marked_fs = [(dcim, Dir), (dcim @ [''old[D].jpg''], File [1, 2, 3])]"

definition empty_dcim_fs :: fs where
  "empty_dcim_fs = [(dcim, Dir)]"

section \<open>Names\<close>

lemma rfind_None: "rfind c s = None \<longleftrightarrow> c \<notin> set s"
  by (induction s) (auto split: option.splits)

lemma rfind_append_last: "c \<notin> set r \<Longrightarrow> rfind c (a @ c # r) = Some (length a)"
  by (induction a) (auto simp: rfind_None split: option.splits)

lemma rfind_Some: "rfind c s = Some i \<Longrightarrow> \<exists>a r. s = a @ c # r \<and> length a = i \<and> c \<notin> set r"
proof (induction s arbitrary: i)
  case Nil
  then show ?case by simp
next
  case (Cons x xs)
  show ?case
  proof (cases "rfind c xs")
    case None
    with Cons.prems have "x = c" "i = 0" by (auto split: if_splits)
    moreover from None have "c \<notin> set xs" by (simp add: rfind_None)
    ultimately show ?thesis by (intro exI[of _ "[]"] exI[of _ xs]) simp
  next
    case (Some j)
    with Cons.prems have i: "i = Suc j" by simp
    from Cons.IH[OF Some] obtain a r where "xs = a @ c # r" "length a = j" "c \<notin> set r" by blast
    then show ?thesis using i by (intro exI[of _ "x # a"] exI[of _ r]) simp
  qed
qed

lemma rfind_ge: "\<exists>j. rfind c (a @ c # r) = Some j \<and> length a \<le> j"
  by (induction a) (auto split: option.splits)

lemma stem_suffix: "stem p @ suffix p = name p"
  by (simp add: stem_def suffix_def Let_def split: option.splits)

lemma suffix_cases: "suffix p = [] \<or> (\<exists>r. suffix p = CHR ''.'' # r)"
proof (cases "rfind CHR ''.'' (name p)")
  case None
  then show ?thesis by (simp add: suffix_def)
next
  case (Some i)
  from rfind_Some[OF Some] obtain a r where "name p = a @ CHR ''.'' # r" "length a = i" by blast
  with Some show ?thesis by (simp add: suffix_def)
qed

lemma name_split:
  assumes "name p = a @ CHR ''.'' # r" "CHR ''.'' \<notin> set r" "a \<noteq> []" "r \<noteq> []"
  shows "suffix p = CHR ''.'' # r" "stem p = a"
  using assms rfind_append_last[of "CHR ''.''" r a]
  by (simp_all add: suffix_def stem_def)

lemma stem_prefix:
  assumes "name p = a @ CHR ''.'' # r"
  shows "take (length a) (stem p) = a"
proof -
  from rfind_ge[of "CHR ''.''" a r] obtain j where "rfind CHR ''.'' (name p) = Some j" "length a \<le> j"
    using assms by auto
  then show ?thesis using assms by (auto simp: stem_def Let_def min_def)
qed

lemma set_stem: "set (stem p) \<subseteq> set (name p)"
  using stem_suffix[of p] by (metis Un_upper1 set_append)

lemma name_snoc: "name (q @ [n]) = n"
  by (simp add: name_def)

lemma with_name_Inr:
  "with_name p n = Inr q \<Longrightarrow> name q = n \<and> parent q = parent p \<and> q = butlast p @ [n] \<and> name p \<noteq> []"
  by (auto simp: with_name_def name_def parent_def split: if_splits)

lemma with_name_ok:
  "name p \<noteq> [] \<Longrightarrow> CHR ''/'' \<notin> set n \<Longrightarrow> 2 \<le> length n \<Longrightarrow> with_name p n = Inr (butlast p @ [n])"
  by (auto simp: with_name_def)

lemma with_name_nonempty: "with_name p n = Inr q \<Longrightarrow> q \<noteq> []"
  by (auto simp: with_name_def split: if_splits)

lemma mark_name_Inr:
  "mark_name p ext = Inr f \<Longrightarrow>
     name f = stem p @ ''[D]'' @ ext \<and> parent f = parent p \<and> name p \<noteq> []"
  by (auto simp: mark_name_def with_name_def name_def parent_def split: if_splits)

lemma mark_name_src_nonempty: "mark_name src ext = Inr final \<Longrightarrow> src \<noteq> [] \<and> final \<noteq> []"
  by (auto simp: mark_name_def with_name_def name_def split: if_splits)

lemma safe_tmp_name_Inr:
  "safe_tmp_name f = Inr t \<Longrightarrow>
     name t = stem f @ ''.tmp'' @ suffix f \<and> parent t = parent f \<and> name f \<noteq> []"
  by (auto simp: safe_tmp_name_def with_name_def name_def parent_def split: if_splits)

lemma safe_tmp_name_nonempty: "safe_tmp_name final = Inr tmp \<Longrightarrow> tmp \<noteq> []"
  by (auto simp: safe_tmp_name_def with_name_def split: if_splits)

lemma img_ext_shape:
  "ext \<in> IMG_EXTS \<Longrightarrow> \<exists>r. ext = CHR ''.'' # r \<and> r \<noteq> [] \<and> CHR ''.'' \<notin> set r \<and> CHR ''/'' \<notin> set r"
  by (auto simp: IMG_EXTS_def)

lemma mark_then_tmp:
  assumes valid: "name p \<noteq> []" "CHR ''/'' \<notin> set (name p)"
    and ext: "ext = CHR ''.'' # r" "r \<noteq> []" "CHR ''.'' \<notin> set r" "CHR ''/'' \<notin> set r"
  shows "\<exists>f t. mark_name p ext = Inr f \<and> safe_tmp_name f = Inr t
           \<and> stem f = stem p @ ''[D]'' \<and> suffix f = ext
           \<and> stem t = stem p @ ''[D].tmp'' \<and> suffix t = ext"
proof -
  let ?f = "butlast p @ [stem p @ ''[D]'' @ ext]"
  let ?t = "butlast ?f @ [stem ?f @ ''.tmp'' @ suffix ?f]"
  have slash: "CHR ''/'' \<notin> set (stem p)" using valid(2) set_stem[of p] by blast
  have f: "mark_name p ext = Inr ?f"
    unfolding mark_name_def using valid slash ext by (intro with_name_ok) auto
  have nf: "name ?f = (stem p @ ''[D]'') @ CHR ''.'' # r" using ext by (simp add: name_snoc)
  have sf: "suffix ?f = ext" "stem ?f = stem p @ ''[D]''"
    using name_split[OF nf] ext by auto
  have t: "safe_tmp_name ?f = Inr ?t"
    unfolding safe_tmp_name_def using sf slash ext
    by (intro with_name_ok) (auto simp: name_snoc)
  have nt: "name ?t = (stem p @ ''[D].tmp'') @ CHR ''.'' # r"
    using sf ext by (simp add: name_snoc)
  have st: "suffix ?t = ext" "stem ?t = stem p @ ''[D].tmp''"
    using name_split[OF nt] ext by auto
  show ?thesis using f t sf st by blast
qed

lemma marked_suffix:
  assumes "name p \<noteq> []" and "CHR ''/'' \<notin> set (name p)" and "ext \<in> IMG_EXTS"
  shows "\<exists>f. mark_name p ext = Inr f \<and> suffix f = ext"
proof -
  from img_ext_shape[OF assms(3)] obtain r where
    "ext = CHR ''.'' # r" "r \<noteq> []" "CHR ''.'' \<notin> set r" "CHR ''/'' \<notin> set r"
    by blast
  from mark_then_tmp[OF assms(1,2) this] show ?thesis by blast
qed

lemma target_ext_cli:
  "lower (suffix src) \<in> IMG_EXTS \<Longrightarrow> fmt \<in> {''keep'', ''jpg'', ''png'', ''webp''}
     \<Longrightarrow> target_ext src fmt \<in> IMG_EXTS"
  by (auto simp: target_ext_def IMG_EXTS_def)

lemma final_ne_src:
  assumes "mark_name src ext = Inr final"
  shows "name final \<noteq> name src"
proof
  assume "name final = name src"
  with mark_name_Inr[OF assms] stem_suffix[of src]
  have "suffix src = ''[D]'' @ ext" by (metis same_append_eq)
  with suffix_cases[of src] show False by auto
qed

lemma tmp_ne_final:
  assumes "safe_tmp_name final = Inr tmp"
  shows "name tmp \<noteq> name final"
proof
  assume "name tmp = name final"
  with safe_tmp_name_Inr[OF assms] stem_suffix[of final]
  have "length (stem final @ ''.tmp'' @ suffix final) = length (stem final @ suffix final)"
    by simp
  then show False by simp
qed

lemma tmp_ne_src:
  assumes m: "mark_name src (target_ext src fmt) = Inr final"
    and t: "safe_tmp_name final = Inr tmp"
  shows "name tmp \<noteq> name src"
proof (cases "fmt = ''keep''")
  case True
  then have ext: "target_ext src fmt = lower (suffix src)" by (simp add: target_ext_def)
  have "length (name tmp) = length (stem final) + 4 + length (suffix final)"
    using safe_tmp_name_Inr[OF t] by simp
  also have "\<dots> = length (name final) + 4"
    using arg_cong[OF stem_suffix[of final], of length] by simp
  also have "\<dots> = length (stem src) + 3 + length (suffix src) + 4"
    using mark_name_Inr[OF m] ext by (simp add: lower_def)
  also have "\<dots> = length (name src) + 7"
    using arg_cong[OF stem_suffix[of src], of length] by simp
  finally show ?thesis by auto
next
  case False
  then have ext: "target_ext src fmt = CHR ''.'' # fmt" by (simp add: target_ext_def)
  define a where "a = stem src @ ''[D]''"
  have nf: "name final = a @ CHR ''.'' # fmt"
    using mark_name_Inr[OF m] ext by (simp add: a_def)
  from stem_prefix[OF nf] have pre: "take (length a) (stem final) = a" .
  have le: "length a \<le> length (stem final)"
  proof (rule ccontr)
    assume "\<not> length a \<le> length (stem final)"
    then have "take (length a) (stem final) = stem final" "length (stem final) < length a"
      by simp_all
    with pre show False by simp
  qed
  show ?thesis
  proof
    assume eq: "name tmp = name src"
    have "take (length a) (name tmp) = a"
      using safe_tmp_name_Inr[OF t] pre le by simp
    with eq have "take (length a) (stem src @ suffix src) = a"
      by (simp add: stem_suffix)
    then have "take 3 (suffix src) = ''[D]''" by (simp add: a_def)
    with suffix_cases[of src] show False by auto
  qed
qed

lemma take_eq_prefix: "take (length sub) l = sub \<longleftrightarrow> (\<exists>b. l = sub @ b)"
proof
  assume "take (length sub) l = sub"
  then have "l = sub @ drop (length sub) l" by (metis append_take_drop_id)
  then show "\<exists>b. l = sub @ b" ..
next
  assume "\<exists>b. l = sub @ b"
  then show "take (length sub) l = sub" by auto
qed

lemma contains_iff: "contains sub s \<longleftrightarrow> (\<exists>a b. s = a @ sub @ b)"
proof (induction s)
  case Nil
  then show ?case by simp
next
  case (Cons x xs)
  show ?case
  proof
    assume "contains sub (x # xs)"
    then consider "take (length sub) (x # xs) = sub" | "contains sub xs" by auto
    then show "\<exists>a b. x # xs = a @ sub @ b"
    proof cases
      case 1
      then obtain b where "x # xs = sub @ b" unfolding take_eq_prefix by blast
      then have "x # xs = [] @ sub @ b" by simp
      then show ?thesis by blast
    next
      case 2
      with Cons.IH obtain a b where "xs = a @ sub @ b" by blast
      then have "x # xs = (x # a) @ sub @ b" by simp
      then show ?thesis by blast
    qed
  next
    assume "\<exists>a b. x # xs = a @ sub @ b"
    then obtain a b where ab: "x # xs = a @ sub @ b" by blast
    show "contains sub (x # xs)"
    proof (cases a)
      case Nil
      with ab have "take (length sub) (x # xs) = sub" unfolding take_eq_prefix by auto
      then show ?thesis by simp
    next
      case (Cons y a')
      with ab have "xs = a' @ sub @ b" by simp
      with Cons.IH have "contains sub xs" by blast
      then show ?thesis by simp
    qed
  qed
qed

lemma bracket_not_in_img_suffix:
  assumes "lower (suffix p) \<in> IMG_EXTS"
  shows "CHR '']'' \<notin> set (suffix p)"
proof
  assume "CHR '']'' \<in> set (suffix p)"
  then have "lower_char CHR '']'' \<in> set (lower (suffix p))" by (simp add: lower_def)
  then have "CHR '']'' \<in> set (lower (suffix p))" by (simp add: lower_char_def)
  with assms show False by (auto simp: IMG_EXTS_def)
qed

lemma marked_of_name:
  assumes "contains ''[D]'' (name p)" and "lower (suffix p) \<in> IMG_EXTS"
  shows "is_marked_d p"
proof -
  from assms(1) obtain a b where ab: "name p = a @ ''[D]'' @ b"
    unfolding contains_iff by blast
  have le: "length a + 3 \<le> length (stem p)"
  proof (rule ccontr)
    assume "\<not> length a + 3 \<le> length (stem p)"
    then have i: "length (stem p) \<le> length a + 2" by simp
    have "(stem p @ suffix p) ! (length a + 2) = CHR '']''"
      using ab by (simp add: stem_suffix nth_append)
    with i have "suffix p ! (length a + 2 - length (stem p)) = CHR '']''"
      by (simp add: nth_append)
    moreover have "length a + 2 - length (stem p) < length (suffix p)"
      using arg_cong[OF stem_suffix[of p], of length] ab i by simp
    ultimately have "CHR '']'' \<in> set (suffix p)" by (metis nth_mem)
    with bracket_not_in_img_suffix[OF assms(2)] show False by simp
  qed
  define c where "c = a @ ''[D]''"
  have lc: "length c \<le> length (stem p)" using le by (simp add: c_def)
  have "stem p = take (length (stem p)) (stem p @ suffix p)" by simp
  also have "\<dots> = take (length (stem p)) (c @ b)" using ab by (simp add: stem_suffix c_def)
  also have "\<dots> = c @ take (length (stem p) - length c) b"
    using lc by simp
  finally have "stem p = a @ ''[D]'' @ take (length (stem p) - length c) b"
    by (simp add: c_def)
  then show ?thesis unfolding is_marked_d_def contains_iff by blast
qed

section \<open>File system operations\<close>

lemma entries_at_none: "map_of fs p = None \<Longrightarrow> entries_at fs p = 0"
  by (induction fs) (auto simp: entries_at_def split: if_splits)

lemma entries_at_delete:
  "entries_at (AList.delete k fs) p = (if k = p then 0 else entries_at fs p)"
  by (induction fs) (auto simp: entries_at_def)

lemma entries_at_update_other:
  "k \<noteq> p \<Longrightarrow> entries_at (AList.update k v fs) p = entries_at fs p"
  by (induction fs) (auto simp: entries_at_def)

lemma entries_at_update_new:
  "entries_at fs p = 0 \<Longrightarrow> entries_at (AList.update p v fs) p = 1"
  by (induction fs) (auto simp: entries_at_def split: if_splits)

lemma unlink_Inr:
  assumes "unlink m p fs = Inr fs'"
  shows "map_of fs' = (map_of fs)(p := None)"
    and "entries_at fs' q = (if q = p then 0 else entries_at fs q)"
  using assms
  by (auto simp: unlink_def AList.delete_conv' entries_at_delete entries_at_none
      split: if_splits option.splits node.splits)

lemma unlink_ok:
  "p \<noteq> [] \<Longrightarrow> map_of fs p \<noteq> Some Dir \<Longrightarrow> \<exists>fs'. unlink True p fs = Inr fs'"
  by (auto simp: unlink_def split: option.splits node.splits)

lemma unlink_existing_ok:
  "p \<noteq> [] \<Longrightarrow> map_of fs p \<noteq> Some Dir \<Longrightarrow>
     \<exists>fs'. (if path_exists fs p then unlink False p fs else Inr fs) = Inr fs'
        \<and> map_of fs' = (map_of fs)(p := None)
        \<and> (\<forall>q. entries_at fs' q = (if q = p then 0 else entries_at fs q))"
  by (auto simp: unlink_def path_exists_def AList.delete_conv' entries_at_delete entries_at_none
      split: option.splits node.splits)

lemma rename_Inr:
  assumes "rename a b fs = Inr fs'"
  shows "\<exists>x. map_of fs a = Some (File x) \<and> map_of fs' = ((map_of fs)(a := None))(b \<mapsto> File x)
           \<and> fs' = AList.update b (File x) (AList.delete a fs)"
  using assms
  by (auto simp: rename_def AList.update_conv' AList.delete_conv'
      split: if_splits option.splits node.splits)

lemma rename_ok:
  "map_of fs a = Some (File x) \<Longrightarrow> \<not> is_dir fs b \<Longrightarrow>
     rename a b fs = Inr (AList.update b (File x) (AList.delete a fs))"
  by (simp add: rename_def)

lemma map_of_write_result:
  "map_of (write_result p out fs) =
     (case out of None \<Rightarrow> map_of fs | Some b \<Rightarrow> (map_of fs)(p \<mapsto> File b))"
  by (simp add: write_result_def AList.update_conv' split: option.splits)

lemma map_of_add_dir:
  "map_of (add_dir q fs) p = map_of fs p \<or> (map_of fs p = None \<and> map_of (add_dir q fs) p = Some Dir)"
  by (auto simp: add_dir_def AList.update_conv')

lemma map_of_fold_add_dir:
  "map_of (fold add_dir qs fs) p = map_of fs p
     \<or> (map_of fs p = None \<and> map_of (fold add_dir qs fs) p = Some Dir)"
proof (induction qs arbitrary: fs)
  case Nil
  then show ?case by simp
next
  case (Cons q qs)
  from Cons.IH[of "add_dir q fs"] map_of_add_dir[of q fs p] show ?case
    by auto
qed

lemma file_at_mkdir_parents:
  "mkdir_parents d fs = Inr fs' \<Longrightarrow> file_at fs' p = file_at fs p"
  using map_of_fold_add_dir[of "dir_chain d" fs p]
  by (auto simp: mkdir_parents_def file_at_def split: if_splits)

lemma mkdir_parents_keeps:
  "mkdir_parents d fs = Inr fs' \<Longrightarrow> map_of fs p = Some n \<Longrightarrow> map_of fs' p = Some n"
  using map_of_fold_add_dir[of "dir_chain d" fs p]
  by (auto simp: mkdir_parents_def split: if_splits)

lemma copy2_Inr:
  assumes "copy2 src (d @ [name src]) fs = Inr fs'"
  shows "\<exists>b dst. map_of fs src = Some (File b) \<and> dst \<noteq> src \<and> name dst = name src
           \<and> map_of fs' = (map_of fs)(dst \<mapsto> File b)"
proof -
  define dst where
    "dst = (if is_dir fs (d @ [name src]) then (d @ [name src]) @ [name src] else d @ [name src])"
  have nm: "name dst = name src" by (simp add: dst_def name_def)
  from assms have c: "(if src = [] then Inl IsADirectoryError
         else case map_of fs src of
                None \<Rightarrow> Inl FileNotFoundError
              | Some Dir \<Rightarrow> Inl IsADirectoryError
              | Some (File b) \<Rightarrow>
                  if dst = src then Inl SameFileError
                  else if is_dir fs dst then Inl IsADirectoryError
                  else Inr (AList.update dst (File b) fs)) = Inr fs'"
    unfolding copy2_def dst_def Let_def by simp
  then obtain b where b: "map_of fs src = Some (File b)"
    by (cases "map_of fs src") (auto split: if_splits node.splits)
  with c have "dst \<noteq> src" "fs' = AList.update dst (File b) fs"
    by (auto split: if_splits)
  with b nm show ?thesis by (auto simp: AList.update_conv')
qed

lemma file_at_backup_original:
  assumes "backup_original src backup_dir fs = (fs1, r)"
  shows "file_at fs1 q = file_at fs q \<or> (name q = name src \<and> q \<noteq> src)"
proof (cases backup_dir)
  case None
  with assms show ?thesis by (simp add: backup_original_def)
next
  case (Some d)
  show ?thesis
  proof (cases "mkdir_parents d fs")
    case (Inl e)
    with Some assms show ?thesis by (simp add: backup_original_def)
  next
    case (Inr fsa)
    note mk = file_at_mkdir_parents[OF Inr, of q]
    show ?thesis
    proof (cases "copy2 src (d @ [name src]) fsa")
      case (Inl e)
      with Some Inr assms mk show ?thesis by (simp add: backup_original_def)
    next
      case cp: (Inr fsb)
      from copy2_Inr[OF cp] obtain b dst where
        "dst \<noteq> src" "name dst = name src" "map_of fsb = (map_of fsa)(dst \<mapsto> File b)"
        by blast
      moreover from Some Inr cp assms have "fs1 = fsb" by (simp add: backup_original_def)
      ultimately show ?thesis using mk by (auto simp: file_at_def)
    qed
  qed
qed

section \<open>Re-encoding into the temp path\<close>

lemma image_open_Inr:
  "image_open codec src fs = Inr im \<Longrightarrow> src \<noteq> [] \<and> (\<exists>b. map_of fs src = Some (File b))"
  by (cases "map_of fs src") (auto simp: image_open_def split: if_splits node.splits)

lemma save_image_to_tmp_Inr:
  assumes "save_image_to_tmp codec im tmp q fs = (fs2, Inr u)" and "tmp \<noteq> []"
  shows "\<exists>out. map_of fs2 =
           (case out of None \<Rightarrow> (map_of fs)(tmp := None) | Some b \<Rightarrow> (map_of fs)(tmp \<mapsto> File b))"
proof -
  define prepared where "prepared =
            (if lower (suffix tmp) = ''.jpg'' \<or> lower (suffix tmp) = ''.jpeg'' then
               (if has_alpha codec im then flatten_black codec im else convert_rgb codec im,
                [Quality q, Optimize True, Progressive True])
             else if lower (suffix tmp) = ''.webp'' then (Some im, [Quality q, Method 6])
             else if lower (suffix tmp) = ''.png'' then (Some im, [Optimize True])
             else (Some im, []))"
  define im' kw where "im' = fst prepared" and "kw = snd prepared"
  have eq: "save_image_to_tmp codec im tmp q fs =
     (case im' of
           None \<Rightarrow> (fs, Inl CodecError)
         | Some im'' \<Rightarrow>
             (case (if path_exists fs tmp then unlink False tmp fs else Inr fs) of
                Inl e \<Rightarrow> (fs, Inl e)
              | Inr fs1 \<Rightarrow>
                  (case save codec im'' (name tmp) kw of
                     Saved out \<Rightarrow> (write_result tmp out fs1, Inr ())
                   | SaveFailed out \<Rightarrow> (write_result tmp out fs1, Inl CodecError))))"
    by (simp only: save_image_to_tmp_def prepared_def im'_def kw_def Let_def)
  from assms(1) eq obtain im'' where im'': "im' = Some im''"
    by (cases im') auto
  let ?u = "if path_exists fs tmp then unlink False tmp fs else Inr fs"
  from assms(1) eq im'' obtain fs1 where u: "?u = Inr fs1"
    by (cases ?u) auto
  have m1: "map_of fs1 = (map_of fs)(tmp := None)"
  proof (cases "path_exists fs tmp")
    case True
    with u show ?thesis using unlink_Inr(1) by simp
  next
    case False
    with assms(2) have "map_of fs tmp = None"
      by (simp add: path_exists_def split: option.splits)
    with False u show ?thesis by auto
  qed
  from assms(1) eq im'' u obtain out where
    "save codec im'' (name tmp) kw = Saved out" "fs2 = write_result tmp out fs1"
    by (cases "save codec im'' (name tmp) kw") auto
  with m1 have "map_of fs2 =
      (case out of None \<Rightarrow> (map_of fs)(tmp := None) | Some b \<Rightarrow> (map_of fs)(tmp \<mapsto> File b))"
    by (cases out) (auto simp: map_of_write_result)
  then show ?thesis ..
qed

lemma transcode_Inr:
  assumes "transcode codec src tmp q bk fs = (fs2, Inr (s, t))" and "tmp \<noteq> []"
  shows "\<exists>b out. file_at fs src = Some b \<and> s = length b
           \<and> map_of fs2 tmp = Some (File out) \<and> t = length out
           \<and> (\<exists>x. map_of fs2 src = Some (File x))
           \<and> (\<forall>p. p \<noteq> tmp \<longrightarrow> name p \<noteq> name src \<or> p = src \<longrightarrow> file_at fs2 p = file_at fs p)"
proof -
  obtain fs1 r where bo: "backup_original src bk fs = (fs1, r)"
    by (cases "backup_original src bk fs")
  from assms(1) bo obtain u where r: "r = Inr u"
    by (cases r) (auto simp: transcode_def)
  from assms(1) bo r have st: "stat_size fs1 src = Inr s"
    by (cases "stat_size fs1 src")
      (auto simp: transcode_def split: sum.splits prod.splits if_splits)
  from assms(1) bo r st obtain im where im: "image_open codec src fs1 = Inr im"
    by (cases "image_open codec src fs1") (auto simp: transcode_def)
  obtain fsa ra where sv: "save_image_to_tmp codec im tmp q fs1 = (fsa, ra)"
    by (cases "save_image_to_tmp codec im tmp q fs1")
  from assms(1) bo r st im sv obtain u' where ra: "ra = Inr u'"
    by (cases ra) (auto simp: transcode_def)
  from assms(1) bo r st im sv ra have fsa: "fsa = fs2" and ex: "path_exists fs2 tmp"
    and st2: "stat_size fs2 tmp = Inr t"
    by (auto simp: transcode_def split: if_splits sum.splits)
  from image_open_Inr[OF im] obtain b where b: "src \<noteq> []" "map_of fs1 src = Some (File b)"
    by blast
  with st have s: "s = length b" by (simp add: stat_size_def)
  from file_at_backup_original[OF bo] have fa: "file_at fs1 p = file_at fs p"
    if "name p \<noteq> name src \<or> p = src" for p using that by blast
  from b have fsrc: "file_at fs src = Some b" using fa[of src] by (simp add: file_at_def)
  from save_image_to_tmp_Inr[OF sv[unfolded ra fsa] assms(2)] obtain out where
    m2: "map_of fs2 = (case out of None \<Rightarrow> (map_of fs1)(tmp := None)
                        | Some c \<Rightarrow> (map_of fs1)(tmp \<mapsto> File c))"
    by blast
  from ex assms(2) m2 obtain c where out: "out = Some c"
    by (cases out) (auto simp: path_exists_def)
  with m2 have m2': "map_of fs2 = (map_of fs1)(tmp \<mapsto> File c)" by simp
  with st2 assms(2) have t: "t = length c" by (simp add: stat_size_def)
  have other: "file_at fs2 p = file_at fs p" if "p \<noteq> tmp" "name p \<noteq> name src \<or> p = src" for p
    using that fa[of p] m2' by (simp add: file_at_def)
  have srcfile: "\<exists>x. map_of fs2 src = Some (File x)" using m2' b by simp
  from fsrc s m2' t srcfile other show ?thesis by auto
qed

lemma transcode_sizes:
  assumes "transcode codec src tmp q bk fs = (fs2, Inr (s, t))" and "tmp \<noteq> []"
    and "src \<noteq> []"
  shows "stat_size fs src = Inr s" and "stat_size fs2 tmp = Inr t"
proof -
  from transcode_Inr[OF assms(1,2)] obtain b out where
    "file_at fs src = Some b" "s = length b" "map_of fs2 tmp = Some (File out)" "t = length out"
    by blast
  then show "stat_size fs src = Inr s" and "stat_size fs2 tmp = Inr t"
    using assms(2,3)
    by (auto simp: stat_size_def file_at_def split: option.splits node.splits)
qed

section \<open>The branches of a bake attempt\<close>

lemma bake_one_skip:
  "is_marked_d p \<Longrightarrow>
     bake_one codec p fmt q del bk True fs = (fs, Inr (False, SkipMarked (name p), 0, 0))"
  by (simp add: bake_one_def)

lemma bake_one_decided:
  assumes "\<not> (skip \<and> is_marked_d src)"
    and "mark_name src (target_ext src fmt) = Inr final"
    and "safe_tmp_name final = Inr tmp"
    and "transcode codec src tmp q bk fs = (fs2, Inr (s, t))"
  shows "bake_one codec src fmt q del bk skip fs =
     (if (if fmt = ''keep'' then t < s else True) then commit_win src final tmp s t del fs2
              else
                (case unlink True tmp fs2 of
                   Inl e \<Rightarrow> (fs2, Inl e)
                 | Inr fs3 \<Rightarrow> (fs3, Inr (False, KeptOriginal (name src), s, s))))"
proof -
  have ns: "(skip \<and> is_marked_d src) = False" using assms(1) by simp
  show ?thesis
    unfolding bake_one_def
    by (simp only: ns if_False assms(2-4) sum.case prod.case Let_def)
qed

lemma skip_message_only_on_skip:
  assumes "bake_one codec src fmt q del bk skip fs = (fs', Inr (w, SkipMarked n, a, b))"
  shows "skip \<and> is_marked_d src"
proof (rule ccontr)
  assume ns: "\<not> (skip \<and> is_marked_d src)"
  then have ns': "(skip \<and> is_marked_d src) = False" by simp
  obtain final where m: "mark_name src (target_ext src fmt) = Inr final"
    using assms by (cases "mark_name src (target_ext src fmt)") (auto simp: bake_one_def ns')
  obtain tmp where t: "safe_tmp_name final = Inr tmp"
    using assms by (cases "safe_tmp_name final") (auto simp: bake_one_def ns' m)
  obtain fs2 r where tr: "transcode codec src tmp q bk fs = (fs2, r)"
    by (cases "transcode codec src tmp q bk fs")
  obtain s t' where r: "r = Inr (s, t')"
    using assms by (cases r) (auto simp: bake_one_def ns' m t tr)
  from bake_one_decided[OF ns m t tr[unfolded r], of del] assms
  show False
    by (auto simp: commit_win_def split: if_splits sum.splits)
qed

lemma bake_keep:
  assumes "\<not> (skip \<and> is_marked_d src)"
    and "mark_name src (target_ext src fmt) = Inr final"
    and "safe_tmp_name final = Inr tmp"
    and "transcode codec src tmp q bk fs = (fs2, Inr (s, t))"
    and "fmt = ''keep''" and "\<not> t < s"
  shows "\<exists>fs'. bake_one codec src fmt q del bk skip fs
            = (fs', Inr (False, KeptOriginal (name src), s, s))
          \<and> map_of fs' = (map_of fs2)(tmp := None)"
proof -
  have tne: "tmp \<noteq> []" using assms(3) by (auto simp: safe_tmp_name_def dest: with_name_nonempty)
  from transcode_Inr[OF assms(4) tne] obtain out where "map_of fs2 tmp = Some (File out)"
    by blast
  with tne have u: "unlink True tmp fs2 = Inr (AList.delete tmp fs2)"
    by (simp add: unlink_def)
  have "bake_one codec src fmt q del bk skip fs
          = (AList.delete tmp fs2, Inr (False, KeptOriginal (name src), s, s))"
    using bake_one_decided[OF assms(1-4), of del] assms(5,6) u by simp
  then show ?thesis by (auto simp: AList.delete_conv')
qed

lemma commit_win_ok:
  assumes sne: "src \<noteq> []" and fne: "final \<noteq> []"
    and tf: "tmp \<noteq> final" and sf: "src \<noteq> final"
    and out: "map_of fsx tmp = Some (File out)"
    and nodir: "\<not> is_dir fsx final"
    and srcnd: "map_of fsx src \<noteq> Some Dir"
  shows "\<exists>fs'. commit_win src final tmp s t del fsx
            = (fs', Inr (True, Baked (name src) (name final) s t, s, t))
          \<and> map_of fs' final = Some (File out)
          \<and> map_of fs' tmp = None
          \<and> entries_at fs' final = 1
          \<and> (\<forall>p. p \<noteq> final \<longrightarrow> p \<noteq> tmp \<longrightarrow>
                map_of fs' p = (if del \<and> p = src then None else map_of fsx p))"
proof -
  from nodir fne have nd: "map_of fsx final \<noteq> Some Dir" by (simp add: is_dir_def)
  from unlink_existing_ok[OF fne nd] obtain fs3 where
    u3: "(if path_exists fsx final then unlink False final fsx else Inr fsx) = Inr fs3"
    and m3: "map_of fs3 = (map_of fsx)(final := None)"
    and e3: "\<And>p. entries_at fs3 p = (if p = final then 0 else entries_at fsx p)"
    by blast
  have t3: "map_of fs3 tmp = Some (File out)" using m3 out tf by simp
  have d3: "\<not> is_dir fs3 final" using m3 fne by (simp add: is_dir_def)
  define fs4 where "fs4 = AList.update final (File out) (AList.delete tmp fs3)"
  have r4: "rename tmp final fs3 = Inr fs4" unfolding fs4_def by (rule rename_ok[OF t3 d3])
  have m4: "map_of fs4 = (map_of fsx)(tmp := None, final \<mapsto> File out)"
    using m3 tf by (auto simp: fs4_def AList.update_conv' AList.delete_conv')
  have e4: "entries_at fs4 final = 1"
    unfolding fs4_def using e3[of final] tf
    by (intro entries_at_update_new) (simp add: entries_at_delete)
  have s4: "map_of fs4 src \<noteq> Some Dir" using m4 srcnd sf by auto
  from unlink_ok[OF sne s4] obtain fs5 where u5: "unlink True src fs4 = Inr fs5" by blast
  define fs' where "fs' = (if del then fs5 else fs4)"
  have u5': "(if del then unlink True src fs4 else Inr fs4) = Inr fs'"
    using u5 by (simp add: fs'_def)
  have m5: "map_of fs' = (if del then (map_of fs4)(src := None) else map_of fs4)"
    using unlink_Inr(1)[OF u5] by (simp add: fs'_def)
  have e5: "entries_at fs' final = 1"
    using unlink_Inr(2)[OF u5, of final] e4 sf by (simp add: fs'_def)
  have res: "commit_win src final tmp s t del fsx
            = (fs', Inr (True, Baked (name src) (name final) s t, s, t))"
    using u3 r4 u5' by (simp add: commit_win_def)
  have "map_of fs' final = Some (File out)" using m5 m4 sf by simp
  moreover have "map_of fs' tmp = None" using m5 m4 tf by simp
  moreover have "\<forall>p. p \<noteq> final \<longrightarrow> p \<noteq> tmp \<longrightarrow>
                map_of fs' p = (if del \<and> p = src then None else map_of fsx p)"
    using m5 m4 by simp
  ultimately show ?thesis using res e5 by blast
qed

lemma commit_win_dir:
  assumes "final \<noteq> []" and "is_dir fsx final"
  shows "commit_win src final tmp s t del fsx = (fsx, Inl IsADirectoryError)"
  using assms by (simp add: commit_win_def is_dir_def path_exists_def unlink_def)

lemma bake_one_commit:
  assumes "\<not> (skip \<and> is_marked_d src)"
    and "mark_name src (target_ext src fmt) = Inr final"
    and "safe_tmp_name final = Inr tmp"
    and "transcode codec src tmp q bk fs = (fs2, Inr (s, t))"
    and "fmt = ''keep'' \<longrightarrow> t < s"
  shows "bake_one codec src fmt q del bk skip fs = commit_win src final tmp s t del fs2"
  using bake_one_decided[OF assms(1-4), of del] assms(5) by simp

lemma bake_win:
  assumes "\<not> (skip \<and> is_marked_d src)"
    and "mark_name src (target_ext src fmt) = Inr final"
    and "safe_tmp_name final = Inr tmp"
    and "transcode codec src tmp q bk fs = (fs2, Inr (s, t))"
    and "fmt = ''keep'' \<longrightarrow> t < s" and "\<not> is_dir fs2 final"
  shows "\<exists>fs' out. bake_one codec src fmt q del bk skip fs
            = (fs', Inr (True, Baked (name src) (name final) s t, s, t))
          \<and> map_of fs2 tmp = Some (File out)
          \<and> map_of fs' final = Some (File out)
          \<and> map_of fs' tmp = None
          \<and> entries_at fs' final = 1
          \<and> (\<forall>p. p \<noteq> final \<longrightarrow> p \<noteq> tmp \<longrightarrow>
                map_of fs' p = (if del \<and> p = src then None else map_of fs2 p))"
proof -
  note ne = mark_name_src_nonempty[OF assms(2)] safe_tmp_name_nonempty[OF assms(3)]
  have tf: "tmp \<noteq> final" using tmp_ne_final[OF assms(3)] by auto
  have sf: "src \<noteq> final" using final_ne_src[OF assms(2)] by auto
  from transcode_Inr[OF assms(4) ne(2)] obtain out x where
    out: "map_of fs2 tmp = Some (File out)" and x: "map_of fs2 src = Some (File x)"
    by blast
  from x have srcnd: "map_of fs2 src \<noteq> Some Dir" by simp
  from commit_win_ok[OF _ _ tf sf out assms(6) srcnd, of s t del] ne
    bake_one_commit[OF assms(1-5), of del] out
  show ?thesis by auto
qed

lemma bake_win_dir:
  assumes "\<not> (skip \<and> is_marked_d src)"
    and "mark_name src (target_ext src fmt) = Inr final"
    and "safe_tmp_name final = Inr tmp"
    and "transcode codec src tmp q bk fs = (fs2, Inr (s, t))"
    and "fmt = ''keep'' \<longrightarrow> t < s" and "is_dir fs2 final"
  shows "bake_one codec src fmt q del bk skip fs = (fs2, Inl IsADirectoryError)"
  using bake_one_commit[OF assms(1-5), of del] commit_win_dir[OF _ assms(6)]
    mark_name_src_nonempty[OF assms(2)]
  by simp

section \<open>The loops of the drivers\<close>

lemma loops_same:
  "all_loop codec fmt q del bk skip files st = folder_loop codec fmt q del bk skip files st"
proof (induction files arbitrary: st)
  case Nil
  then show ?case by simp
next
  case (Cons src files)
  obtain fs b k e where st: "st = (fs, b, k, e)" by (cases st)
  show ?case unfolding st
    by (simp add: Cons.IH split: prod.splits sum.splits)
qed

lemma folder_loop_counts:
  "folder_loop codec fmt q del bk skip files (fs, b, k, e) = (fs', b', k', e')
     \<Longrightarrow> b' + k' + e' = b + k + e + length files"
proof (induction files arbitrary: fs b k e)
  case Nil
  then show ?case by simp
next
  case (Cons src files)
  obtain fs1 r where bo: "bake_one codec src fmt q del bk skip fs = (fs1, r)"
    by (cases "bake_one codec src fmt q del bk skip fs")
  show ?case
  proof (cases r)
    case (Inl err)
    with Cons.prems bo have "folder_loop codec fmt q del bk skip files (fs1, b, k, e + 1) = (fs', b', k', e')"
      by simp
    from Cons.IH[OF this] show ?thesis by simp
  next
    case (Inr oc)
    obtain won msg s1 s2 where oc: "oc = (won, msg, s1, s2)" by (cases oc)
    show ?thesis
    proof (cases won)
      case True
      with Cons.prems bo Inr oc
      have "folder_loop codec fmt q del bk skip files (fs1, b + 1, k, e) = (fs', b', k', e')"
        by simp
      from Cons.IH[OF this] show ?thesis by simp
    next
      case False
      with Cons.prems bo Inr oc
      have "folder_loop codec fmt q del bk skip files (fs1, b, k + 1, e) = (fs', b', k', e')"
        by simp
      from Cons.IH[OF this] show ?thesis by simp
    qed
  qed
qed

lemma folder_loop_kept_shift:
  "folder_loop codec fmt q del bk skip files (fs, b, k + n, e) =
     (case folder_loop codec fmt q del bk skip files (fs, b, k, e) of
        (fs', b', k', e') \<Rightarrow> (fs', b', k' + n, e'))"
proof (induction files arbitrary: fs b k e)
  case Nil
  then show ?case by simp
next
  case (Cons src files)
  obtain fs1 r where bo: "bake_one codec src fmt q del bk skip fs = (fs1, r)"
    by (cases "bake_one codec src fmt q del bk skip fs")
  show ?case
  proof (cases r)
    case (Inl err)
    with bo Cons.IH[of fs1 b k "e + 1"] show ?thesis by simp
  next
    case (Inr oc)
    obtain won msg s1 s2 where oc: "oc = (won, msg, s1, s2)" by (cases oc)
    show ?thesis
    proof (cases won)
      case True
      with bo Inr oc Cons.IH[of fs1 "b + 1" k e] show ?thesis by simp
    next
      case False
      have "k + n + 1 = (k + 1) + n" by simp
      with False bo Inr oc Cons.IH[of fs1 b "k + 1" e] show ?thesis by simp
    qed
  qed
qed

lemma folder_loop_marked:
  "folder_loop codec fmt q del bk True files (fs, b, k, e) =
     (case folder_loop codec fmt q del bk True (filter (\<lambda>p. \<not> is_marked_d p) files) (fs, b, k, e) of
        (fs', b', k', e') \<Rightarrow> (fs', b', k' + length (filter is_marked_d files), e'))"
proof (induction files arbitrary: fs b k e)
  case Nil
  then show ?case by simp
next
  case (Cons src files)
  show ?case
  proof (cases "is_marked_d src")
    case True
    have "folder_loop codec fmt q del bk True (src # files) (fs, b, k, e)
            = folder_loop codec fmt q del bk True files (fs, b, k + 1, e)"
      using True by (simp add: bake_one_skip)
    also have "\<dots> = (case folder_loop codec fmt q del bk True files (fs, b, k, e) of
        (fs', b', k', e') \<Rightarrow> (fs', b', k' + 1, e'))"
      by (rule folder_loop_kept_shift)
    finally show ?thesis using True Cons.IH[of fs b k e]
      by (simp split: prod.splits)
  next
    case False
    obtain fs1 r where bo: "bake_one codec src fmt q del bk True fs = (fs1, r)"
      by (cases "bake_one codec src fmt q del bk True fs")
    show ?thesis
    proof (cases r)
      case (Inl err)
      with False bo Cons.IH[of fs1 b k "e + 1"] show ?thesis by simp
    next
      case (Inr oc)
      obtain won msg s1 s2 where oc: "oc = (won, msg, s1, s2)" by (cases oc)
      show ?thesis
      proof (cases won)
        case True
        with False bo Inr oc Cons.IH[of fs1 "b + 1" k e] show ?thesis by simp
      next
        case nw: False
        with False bo Inr oc Cons.IH[of fs1 b "k + 1" e] show ?thesis by simp
      qed
    qed
  qed
qed

lemma all_loop_total:
  assumes "all_loop codec fmt q del bk skip files (fs, 0, 0, 0) = (fs', b, k, e)"
  shows "b + k + e = length files"
  using folder_loop_counts[of codec fmt q del bk skip files fs 0 0 0 fs' b k e] assms
  by (simp add: loops_same)

lemma all_mode_files_single:
  "all_mode_files fs [r] skip =
     (if skip then filter (\<lambda>p. \<not> is_marked_d p) (iter_images_recursive fs r)
      else iter_images_recursive fs r)"
proof -
  have "filter (\<lambda>p. lower (suffix p) \<in> IMG_EXTS) (iter_images_recursive fs r)
          = iter_images_recursive fs r"
    unfolding iter_images_recursive_def filter_filter
    by (rule filter_cong) auto
  then show ?thesis by (simp add: all_mode_files_def Let_def)
qed

lemma drivers_on_one_root:
  assumes roots: "default_all_roots home fs = [r]" and dir: "is_dir fs r"
    and gate: "\<not> (del \<and> strip confirm \<noteq> required)"
  shows "\<exists>fs' sm. run_all_mode codec home fmt q del bk skip confirm fs = (fs', Inr sm)
           \<and> run_folder_mode codec r fmt q del bk skip True fs
               = (fs', Inr (sm\<lparr>total := total sm + (if skip then length (filter is_marked_d (iter_images_recursive fs r)) else 0),
                               kept := kept sm + (if skip then length (filter is_marked_d (iter_images_recursive fs r)) else 0)\<rparr>))"
proof -
  from gate have gF: "(del \<and> strip confirm \<noteq> required) = False" by blast
  let ?scan = "iter_images_recursive fs r"
  let ?files = "all_mode_files fs [r] skip"
  let ?m = "if skip then length (filter is_marked_d ?scan) else 0"
  obtain fs' b k e where l: "all_loop codec fmt q del bk skip ?files (fs, 0, 0, 0) = (fs', b, k, e)"
    by (cases "all_loop codec fmt q del bk skip ?files (fs, 0, 0, 0)")
  define sm where "sm = \<lparr>total = length ?files, baked = b, kept = k, errors = e,
                 size_before = folder_size_bytes fs r, size_after = folder_size_bytes fs' r\<rparr>"
  have a: "run_all_mode codec home fmt q del bk skip confirm fs = (fs', Inr sm)"
    unfolding run_all_mode_def gF if_False using roots l by (simp add: Let_def sm_def)
  have fl: "folder_loop codec fmt q del bk skip ?scan (fs, 0, 0, 0) = (fs', b, k + ?m, e)"
  proof (cases skip)
    case True
    with l have "all_loop codec fmt q del bk True (filter (\<lambda>p. \<not> is_marked_d p) ?scan) (fs, 0, 0, 0)
                   = (fs', b, k, e)"
      by (simp add: all_mode_files_single)
    then have "folder_loop codec fmt q del bk True (filter (\<lambda>p. \<not> is_marked_d p) ?scan) (fs, 0, 0, 0)
                   = (fs', b, k, e)"
      by (simp add: loops_same)
    with folder_loop_marked[of codec fmt q del bk ?scan fs 0 0 0] True show ?thesis by simp
  next
    case False
    with l show ?thesis by (simp add: all_mode_files_single loops_same)
  qed
  have len: "length ?scan = length ?files + ?m"
    using sum_length_filter_compl[of is_marked_d ?scan]
    by (simp add: all_mode_files_single)
  have "run_folder_mode codec r fmt q del bk skip True fs
          = (fs', Inr \<lparr>total = length ?scan, baked = b, kept = k + ?m, errors = e,
                 size_before = folder_size_bytes fs r, size_after = folder_size_bytes fs' r\<rparr>)"
    unfolding run_folder_mode_def using dir fl by (simp add: Let_def)
  also have "\<dots> = (fs', Inr (sm\<lparr>total := total sm + ?m, kept := kept sm + ?m\<rparr>))"
    using len by (simp add: sm_def)
  finally show ?thesis using a by blast
qed

lemma not_in_all_mode_files: "is_marked_d p \<Longrightarrow> p \<notin> set (all_mode_files fs roots True)"
  by (simp add: all_mode_files_def Let_def)

section \<open>Concrete runs\<close>

lemmas path_eval = name_def stem_def suffix_def lower_def lower_char_def target_ext_def
  mark_name_def safe_tmp_name_def with_name_def is_marked_d_def

lemmas fs_eval = path_exists_def is_dir_def is_file_def file_at_def stat_size_def unlink_def
  rename_def write_result_def image_open_def backup_original_def

lemmas driver_eval = run_folder_mode_def run_all_mode_def default_all_roots_def
  all_mode_files_def iter_images_recursive_def iter_images_flat_def rglob_def iterdir_def
  is_under_def folder_size_bytes_def IMG_EXTS_def required_def refusal_def strip_def
  is_space_def dcim_def

lemma ex_unmarked_a: "\<not> (True \<and> is_marked_d [''d'', ''a.jpg''])"
  by (simp add: path_eval)

lemma ex_mark_a: "mark_name [''d'', ''a.jpg''] (target_ext [''d'', ''a.jpg''] ''keep'') = Inr [''d'', ''a[D].jpg'']"
  by (simp add: path_eval)

lemma ex_tmp_a: "safe_tmp_name [''d'', ''a[D].jpg''] = Inr [''d'', ''a[D].tmp.jpg'']"
  by (simp add: path_eval)

lemma ex_transcode_a:
  "transcode example_codec [''d'', ''a.jpg''] [''d'', ''a[D].tmp.jpg''] 85 None example_fs
     = (example_fs @ [([''d'', ''a[D].tmp.jpg''], File (replicate 90 0))], Inr (100, 90))"
  by (simp add: transcode_def save_image_to_tmp_def fs_eval path_eval example_codec_def
      example_fs_def reencode_def Let_def)

lemma ex_nodir_a:
  "\<not> is_dir (example_fs @ [([''d'', ''a[D].tmp.jpg''], File (replicate 90 0))]) [''d'', ''a[D].jpg'']"
  by (simp add: is_dir_def example_fs_def)

lemma ex_file_tmp_a:
  "file_at (example_fs @ [([''d'', ''a[D].tmp.jpg''], File (replicate 90 0))]) [''d'', ''a[D].tmp.jpg'']
     = Some (replicate 90 0)"
  by (simp add: file_at_def example_fs_def)

lemma ex_unmarked_b: "\<not> (True \<and> is_marked_d [''d'', ''b.jpg''])"
  by (simp add: path_eval)

lemma ex_mark_b: "mark_name [''d'', ''b.jpg''] (target_ext [''d'', ''b.jpg''] ''keep'') = Inr [''d'', ''b[D].jpg'']"
  by (simp add: path_eval)

lemma ex_tmp_b: "safe_tmp_name [''d'', ''b[D].jpg''] = Inr [''d'', ''b[D].tmp.jpg'']"
  by (simp add: path_eval)

lemma ex_transcode_b:
  "transcode example_codec [''d'', ''b.jpg''] [''d'', ''b[D].tmp.jpg''] 85 None example_fs
     = (example_fs @ [([''d'', ''b[D].tmp.jpg''], File (replicate 250 0))], Inr (200, 250))"
  by (simp add: transcode_def save_image_to_tmp_def fs_eval path_eval example_codec_def
      example_fs_def reencode_def Let_def)

lemma ex_nodir_b:
  "\<not> is_dir (example_fs @ [([''d'', ''b[D].tmp.jpg''], File (replicate 250 0))]) [''d'', ''b[D].jpg'']"
  by (simp add: is_dir_def example_fs_def)

lemma ex_unmarked_c: "\<not> (True \<and> is_marked_d [''d'', ''c.jpg''])"
  by (simp add: path_eval)

lemma ex_mark_c: "mark_name [''d'', ''c.jpg''] (target_ext [''d'', ''c.jpg''] ''keep'') = Inr [''d'', ''c[D].jpg'']"
  by (simp add: path_eval)

lemma ex_tmp_c: "safe_tmp_name [''d'', ''c[D].jpg''] = Inr [''d'', ''c[D].tmp.jpg'']"
  by (simp add: path_eval)

lemma ex_transcode_c:
  "transcode example_codec [''d'', ''c.jpg''] [''d'', ''c[D].tmp.jpg''] 85 None example_fs
     = (example_fs @ [([''d'', ''c[D].tmp.jpg''], File (replicate 50 7))], Inr (50, 50))"
  by (simp add: transcode_def save_image_to_tmp_def fs_eval path_eval example_codec_def
      example_fs_def reencode_def Let_def)

lemma ex_nodir_c:
  "\<not> is_dir (example_fs @ [([''d'', ''c[D].tmp.jpg''], File (replicate 50 7))]) [''d'', ''c[D].jpg'']"
  by (simp add: is_dir_def example_fs_def)

lemma ex_mark_bw: "mark_name [''d'', ''b.jpg''] (target_ext [''d'', ''b.jpg''] ''webp'') = Inr [''d'', ''b[D].webp'']"
  by (simp add: path_eval)

lemma ex_tmp_bw: "safe_tmp_name [''d'', ''b[D].webp''] = Inr [''d'', ''b[D].tmp.webp'']"
  by (simp add: path_eval)

lemma ex_transcode_bw:
  "transcode example_codec [''d'', ''b.jpg''] [''d'', ''b[D].tmp.webp''] 85 None example_fs
     = (example_fs @ [([''d'', ''b[D].tmp.webp''], File (replicate 250 0))], Inr (200, 250))"
  by (simp add: transcode_def save_image_to_tmp_def fs_eval path_eval example_codec_def
      example_fs_def reencode_def Let_def)

lemma ex_nodir_bw:
  "\<not> is_dir (example_fs @ [([''d'', ''b[D].tmp.webp''], File (replicate 250 0))]) [''d'', ''b[D].webp'']"
  by (simp add: is_dir_def example_fs_def)

lemma ex_transcode_bw_dir:
  "transcode example_codec [''d'', ''b.jpg''] [''d'', ''b[D].tmp.webp''] 85 None
       (example_fs @ [([''d'', ''b[D].webp''], Dir)])
     = (example_fs @ [([''d'', ''b[D].webp''], Dir),
                       ([''d'', ''b[D].tmp.webp''], File (replicate 250 0))], Inr (200, 250))"
  by (simp add: transcode_def save_image_to_tmp_def fs_eval path_eval example_codec_def
      example_fs_def reencode_def Let_def)

lemma ex_dir_bw:
  "is_dir (example_fs @ [([''d'', ''b[D].webp''], Dir),
                          ([''d'', ''b[D].tmp.webp''], File (replicate 250 0))])
     [''d'', ''b[D].webp'']"
  by (simp add: is_dir_def example_fs_def)

lemma ex_transcode_b_dir:
  "transcode example_codec [''d'', ''b.jpg''] [''d'', ''b[D].tmp.jpg''] 85 None
       (example_fs @ [([''d'', ''b[D].jpg''], Dir)])
     = (example_fs @ [([''d'', ''b[D].jpg''], Dir),
                       ([''d'', ''b[D].tmp.jpg''], File (replicate 250 0))], Inr (200, 250))"
  by (simp add: transcode_def save_image_to_tmp_def fs_eval path_eval example_codec_def
      example_fs_def reencode_def Let_def)

lemma ex_mark_cp: "mark_name [''d'', ''c.jpg''] (target_ext [''d'', ''c.jpg''] ''png'') = Inr [''d'', ''c[D].png'']"
  by (simp add: path_eval)

lemma ex_tmp_cp: "safe_tmp_name [''d'', ''c[D].png''] = Inr [''d'', ''c[D].tmp.png'']"
  by (simp add: path_eval)

lemma ex_transcode_cp_dir:
  "transcode example_codec [''d'', ''c.jpg''] [''d'', ''c[D].tmp.png''] 85 None
       (example_fs @ [([''d'', ''c[D].png''], Dir)])
     = (example_fs @ [([''d'', ''c[D].png''], Dir),
                       ([''d'', ''c[D].tmp.png''], File (replicate 50 7))], Inr (50, 50))"
  by (simp add: transcode_def save_image_to_tmp_def fs_eval path_eval example_codec_def
      example_fs_def reencode_def Let_def)

lemma ex_dir_cp:
  "is_dir (example_fs @ [([''d'', ''c[D].png''], Dir),
                          ([''d'', ''c[D].tmp.png''], File (replicate 50 7))])
     [''d'', ''c[D].png'']"
  by (simp add: is_dir_def example_fs_def)

section \<open>The filename contract\<close>

text \<open>
  Claim C8. For every path and target extension, whenever \<open>mark_name\<close> and
  \<open>safe_tmp_name\<close> return: the marked path lies in the same directory and is named by the
  stem of the candidate, then \<open>[D]\<close>, then the extension; the temp path lies in the same
  directory and is named by the stem of the marked path, then \<open>.tmp\<close>, then the extension
  of the marked path. For a path with a proper name and a recognised image extension as
  the target both return, the marked path has the stem of the candidate followed by
  \<open>[D]\<close> and the target extension, and the temp path still ends in that image extension.
\<close>

theorem marked_and_temp_names:
  "(\<forall>f. mark_name p ext = Inr f \<longrightarrow>
       parent f = parent p \<and> name f = stem p @ ''[D]'' @ ext
       \<and> (\<forall>t. safe_tmp_name f = Inr t \<longrightarrow>
              parent t = parent f \<and> name t = stem f @ ''.tmp'' @ suffix f))
   \<and> (name p \<noteq> [] \<and> CHR ''/'' \<notin> set (name p) \<and> ext \<in> IMG_EXTS \<longrightarrow>
        (\<exists>f t. mark_name p ext = Inr f \<and> safe_tmp_name f = Inr t
           \<and> stem f = stem p @ ''[D]'' \<and> suffix f = ext
           \<and> suffix t = ext \<and> suffix t \<in> IMG_EXTS))"
proof -
  have shape: "parent f = parent p \<and> name f = stem p @ ''[D]'' @ ext
       \<and> (\<forall>t. safe_tmp_name f = Inr t \<longrightarrow>
              parent t = parent f \<and> name t = stem f @ ''.tmp'' @ suffix f)"
    if "mark_name p ext = Inr f" for f
    using mark_name_Inr[OF that] safe_tmp_name_Inr[of f] by blast
  have img: "\<exists>f t. mark_name p ext = Inr f \<and> safe_tmp_name f = Inr t
           \<and> stem f = stem p @ ''[D]'' \<and> suffix f = ext
           \<and> suffix t = ext \<and> suffix t \<in> IMG_EXTS"
    if v: "name p \<noteq> []" "CHR ''/'' \<notin> set (name p)" and e: "ext \<in> IMG_EXTS"
  proof -
    from img_ext_shape[OF e] obtain r where
      r: "ext = CHR ''.'' # r" "r \<noteq> []" "CHR ''.'' \<notin> set r" "CHR ''/'' \<notin> set r"
      by blast
    from mark_then_tmp[OF v r] e show ?thesis by auto
  qed
  from shape img show ?thesis by blast
qed

theorem marked_and_temp_names_witness:
  "name [''d'', ''photo.jpg''] \<noteq> [] \<and> CHR ''/'' \<notin> set (name [''d'', ''photo.jpg''])
   \<and> ''.jpg'' \<in> IMG_EXTS
   \<and> mark_name [''d'', ''photo.jpg''] ''.jpg'' = Inr [''d'', ''photo[D].jpg'']
   \<and> safe_tmp_name [''d'', ''photo[D].jpg''] = Inr [''d'', ''photo[D].tmp.jpg'']
   \<and> suffix [''d'', ''photo[D].tmp.jpg''] \<in> IMG_EXTS"
proof -
  have h1: "name [''d'', ''photo.jpg''] \<noteq> []" by (simp add: name_def)
  have h2: "CHR ''/'' \<notin> set (name [''d'', ''photo.jpg''])" by (simp add: name_def)
  have h3: "''.jpg'' \<in> IMG_EXTS" by (simp add: IMG_EXTS_def)
  have m: "mark_name [''d'', ''photo.jpg''] ''.jpg'' = Inr [''d'', ''photo[D].jpg'']"
    by (simp add: mark_name_def with_name_def stem_def name_def)
  have t: "safe_tmp_name [''d'', ''photo[D].jpg''] = Inr [''d'', ''photo[D].tmp.jpg'']"
    by (simp add: safe_tmp_name_def with_name_def stem_def suffix_def name_def)
  from marked_and_temp_names[of "[''d'', ''photo.jpg'']" "''.jpg''"] h1 h2 h3 m t
  have "suffix [''d'', ''photo[D].tmp.jpg''] \<in> IMG_EXTS" by auto
  with h1 h2 h3 m t show ?thesis by blast
qed

text \<open>
  Claim C7, as written, fails for a candidate with an upper-case extension: in keep mode
  the marked path of \<open>photo.JPG\<close> is \<open>photo[D].jpg\<close>, whose extension is not the
  candidate's.
\<close>

theorem keep_ext_upper_case_counterexample:
  "target_ext [''d'', ''photo.JPG''] ''keep'' = ''.jpg''
   \<and> suffix [''d'', ''photo.JPG''] = ''.JPG''
   \<and> mark_name [''d'', ''photo.JPG''] (target_ext [''d'', ''photo.JPG''] ''keep'')
       = Inr [''d'', ''photo[D].jpg'']
   \<and> suffix [''d'', ''photo[D].jpg''] \<noteq> suffix [''d'', ''photo.JPG'']"
  by (simp add: target_ext_def suffix_def stem_def name_def lower_def lower_char_def
      mark_name_def with_name_def)

text \<open>
  Claim C7, amended. In keep mode the target extension is the candidate's extension in
  lower case; for every other format it is a dot followed by the format. For a candidate
  with a proper name and a recognised extension, the target extension is the extension of
  the marked path, in keep mode and for the formats \<open>jpg\<close>, \<open>png\<close> and \<open>webp\<close>.
\<close>

theorem target_ext_of_marked_path:
  "target_ext src ''keep'' = lower (suffix src)
   \<and> (\<forall>fmt. fmt \<noteq> ''keep'' \<longrightarrow> target_ext src fmt = ''.'' @ fmt)
   \<and> (name src \<noteq> [] \<and> CHR ''/'' \<notin> set (name src) \<and> lower (suffix src) \<in> IMG_EXTS \<longrightarrow>
        (\<exists>f. mark_name src (target_ext src ''keep'') = Inr f
             \<and> suffix f = lower (suffix src))
        \<and> (\<forall>fmt. fmt \<in> {''jpg'', ''png'', ''webp''} \<longrightarrow>
              (\<exists>f. mark_name src (target_ext src fmt) = Inr f \<and> suffix f = ''.'' @ fmt)))"
proof -
  have k: "target_ext src ''keep'' = lower (suffix src)"
    by (simp add: target_ext_def)
  have other: "target_ext src fmt = ''.'' @ fmt" if "fmt \<noteq> ''keep''" for fmt
    using that by (simp add: target_ext_def)
  have kf: "\<exists>f. mark_name src (target_ext src ''keep'') = Inr f \<and> suffix f = lower (suffix src)"
    if "name src \<noteq> []" "CHR ''/'' \<notin> set (name src)" "lower (suffix src) \<in> IMG_EXTS"
    using marked_suffix[OF that] k by simp
  have cli: "\<exists>f. mark_name src (target_ext src fmt) = Inr f \<and> suffix f = ''.'' @ fmt"
    if v: "name src \<noteq> []" "CHR ''/'' \<notin> set (name src)"
      and f: "fmt \<in> {''jpg'', ''png'', ''webp''}" for fmt
  proof -
    from f have ne: "fmt \<noteq> ''keep''" and ext: "''.'' @ fmt \<in> IMG_EXTS"
      by (auto simp: IMG_EXTS_def)
    from marked_suffix[OF v ext] other[OF ne] show ?thesis by simp
  qed
  from k kf other cli show ?thesis by blast
qed

theorem target_ext_of_marked_path_witness:
  "name [''d'', ''photo.JPG''] \<noteq> [] \<and> CHR ''/'' \<notin> set (name [''d'', ''photo.JPG''])
   \<and> lower (suffix [''d'', ''photo.JPG'']) \<in> IMG_EXTS
   \<and> target_ext [''d'', ''photo.JPG''] ''keep'' = ''.jpg''
   \<and> target_ext [''d'', ''photo.JPG''] ''webp'' = ''.webp''
   \<and> (\<exists>f. mark_name [''d'', ''photo.JPG''] (target_ext [''d'', ''photo.JPG''] ''keep'') = Inr f
          \<and> suffix f = ''.jpg'')"
proof -
  have h1: "name [''d'', ''photo.JPG''] \<noteq> []" by (simp add: name_def)
  have h2: "CHR ''/'' \<notin> set (name [''d'', ''photo.JPG''])" by (simp add: name_def)
  have l: "lower (suffix [''d'', ''photo.JPG'']) = ''.jpg''"
    by (simp add: suffix_def name_def lower_def lower_char_def)
  have h3: "lower (suffix [''d'', ''photo.JPG'']) \<in> IMG_EXTS"
    by (simp add: l IMG_EXTS_def)
  from target_ext_of_marked_path[of "[''d'', ''photo.JPG'']"] h1 h2 h3
  have "target_ext [''d'', ''photo.JPG''] ''keep'' = lower (suffix [''d'', ''photo.JPG''])"
    and "target_ext [''d'', ''photo.JPG''] ''webp'' = ''.'' @ ''webp''"
    and "\<exists>f. mark_name [''d'', ''photo.JPG''] (target_ext [''d'', ''photo.JPG''] ''keep'') = Inr f
          \<and> suffix f = lower (suffix [''d'', ''photo.JPG''])"
    by auto
  with h1 h2 h3 l show ?thesis by simp
qed

text \<open>
  Claim C10. The completion-tag test is a substring test on the stem: a path is marked
  exactly when \<open>[D]\<close> occurs somewhere in its stem; a marked path is skipped by \<open>bake_one\<close>
  when \<open>skip_if_marked\<close> is set and is not in the candidate list of the multi-root driver.
\<close>

theorem marked_is_substring_of_stem:
  "(is_marked_d p \<longleftrightarrow> (\<exists>a b. stem p = a @ ''[D]'' @ b))
   \<and> (is_marked_d p \<longrightarrow>
        bake_one codec p fmt q del bk True fs = (fs, Inr (False, SkipMarked (name p), 0, 0))
        \<and> p \<notin> set (all_mode_files fs roots True))"
  using bake_one_skip[of p codec fmt q del bk fs] not_in_all_mode_files[of p fs roots]
  by (auto simp: is_marked_d_def contains_iff)

theorem marked_is_substring_of_stem_witness:
  "stem [''d'', ''a[D]b.jpg''] = ''a'' @ ''[D]'' @ ''b''
   \<and> is_marked_d [''d'', ''a[D]b.jpg'']
   \<and> bake_one example_codec [''d'', ''a[D]b.jpg''] ''keep'' 85 True None True example_fs
       = (example_fs, Inr (False, SkipMarked ''a[D]b.jpg'', 0, 0))
   \<and> [''d'', ''a[D]b.jpg''] \<notin> set (all_mode_files example_fs [[''d'']] True)"
proof -
  have st: "stem [''d'', ''a[D]b.jpg''] = ''a'' @ ''[D]'' @ ''b''" by (simp add: path_eval)
  then have ex: "\<exists>a b. stem [''d'', ''a[D]b.jpg''] = a @ ''[D]'' @ b" by blast
  from marked_is_substring_of_stem[of "[''d'', ''a[D]b.jpg'']" example_codec "''keep''" 85 True
      None example_fs "[[''d'']]"] ex
  have "is_marked_d [''d'', ''a[D]b.jpg'']"
    and "bake_one example_codec [''d'', ''a[D]b.jpg''] ''keep'' 85 True None True example_fs
       = (example_fs, Inr (False, SkipMarked (name [''d'', ''a[D]b.jpg'']), 0, 0))"
    and "[''d'', ''a[D]b.jpg''] \<notin> set (all_mode_files example_fs [[''d'']] True)"
    by blast+
  with st show ?thesis by (simp add: name_def)
qed

section \<open>One bake attempt\<close>

text \<open>
  Claim C6. A candidate with a recognised extension whose base name contains \<open>[D]\<close> is
  skipped when \<open>skip_if_marked\<close> is set: \<open>bake_one\<close> returns at once, with the file system
  as it was, the flag false and both sizes zero. No other outcome looks like this one: a
  call that returns the skip message took the skip path, whatever its arguments.
\<close>

theorem skip_marked_candidate:
  assumes "contains ''[D]'' (name p)" and "lower (suffix p) \<in> IMG_EXTS"
  shows "bake_one (codec :: 'img codec) p fmt q del bk True fs
           = (fs, Inr (False, SkipMarked (name p), 0, 0))
         \<and> (\<forall>codec' src' fmt' q' del' bk' skip' fs0 fs' w n a b.
               bake_one (codec' :: 'img codec) src' fmt' q' del' bk' skip' fs0
                 = (fs', Inr (w, SkipMarked n, a, b))
               \<longrightarrow> skip' \<and> is_marked_d src' \<and> \<not> w \<and> a = 0 \<and> b = 0 \<and> fs' = fs0)"
proof -
  have 1: "bake_one codec p fmt q del bk True fs = (fs, Inr (False, SkipMarked (name p), 0, 0))"
    by (rule bake_one_skip[OF marked_of_name[OF assms]])
  have 2: "skip' \<and> is_marked_d src' \<and> \<not> w \<and> a = 0 \<and> b = 0 \<and> fs' = fs0"
    if h: "bake_one (codec' :: 'img codec) src' fmt' q' del' bk' skip' fs0
         = (fs', Inr (w, SkipMarked n, a, b))"
    for codec' src' fmt' q' del' bk' skip' fs0 fs' w n a b
  proof -
    from skip_message_only_on_skip[OF h] have s: "skip'" "is_marked_d src'" by simp_all
    with h show ?thesis by (simp add: bake_one_def)
  qed
  from 1 2 show ?thesis by blast
qed

theorem skip_marked_candidate_witness:
  "contains ''[D]'' (name [''d'', ''photo[D].jpg''])
   \<and> lower (suffix [''d'', ''photo[D].jpg'']) \<in> IMG_EXTS
   \<and> bake_one example_codec [''d'', ''photo[D].jpg''] ''keep'' 85 True None True example_fs
       = (example_fs, Inr (False, SkipMarked ''photo[D].jpg'', 0, 0))"
proof -
  have h1: "contains ''[D]'' (name [''d'', ''photo[D].jpg''])" by (simp add: name_def)
  have h2: "lower (suffix [''d'', ''photo[D].jpg'']) \<in> IMG_EXTS"
    by (simp add: path_eval IMG_EXTS_def)
  from skip_marked_candidate[OF h1 h2, of example_codec "''keep''" 85 True None example_fs]
  have "bake_one example_codec [''d'', ''photo[D].jpg''] ''keep'' 85 True None True example_fs
       = (example_fs, Inr (False, SkipMarked ''photo[D].jpg'', 0, 0))"
    by (simp add: name_def)
  with h1 h2 show ?thesis by blast
qed

text \<open>
  Claim C1, as written, fails when a directory sits at the final marked path: the attempt
  reaches the win decision with a format change requested, and it does not win, because the
  removal of what is at the final path raises.
\<close>

theorem format_change_blocked_counterexample:
  "transcode example_codec [''d'', ''b.jpg''] [''d'', ''b[D].tmp.webp''] 85 None
       (example_fs @ [([''d'', ''b[D].webp''], Dir)])
     = (example_fs @ [([''d'', ''b[D].webp''], Dir),
                       ([''d'', ''b[D].tmp.webp''], File (replicate 250 0))], Inr (200, 250))
   \<and> bake_one example_codec [''d'', ''b.jpg''] ''webp'' 85 False None True
       (example_fs @ [([''d'', ''b[D].webp''], Dir)])
     = (example_fs @ [([''d'', ''b[D].webp''], Dir),
                       ([''d'', ''b[D].tmp.webp''], File (replicate 250 0))],
        Inl IsADirectoryError)"
  by (simp add: bake_one_def commit_win_def transcode_def save_image_to_tmp_def fs_eval
      path_eval example_codec_def example_fs_def reencode_def Let_def)

text \<open>
  Claim C1, amended. For an attempt that reaches the win decision (not skipped, the names
  computed, the re-encoding done with the source of size \<open>s\<close> and the temp file of size
  \<open>t\<close>), the decision is \<open>t < s\<close> when the format is \<open>keep\<close> and holds for every other
  format. When it does not hold the attempt returns \<open>KeptOriginal\<close>, whatever is at the
  final path. When it holds the attempt returns \<open>Won\<close>, unless a directory sits at the
  final path: then the attempt raises \<^verbatim>\<open>IsADirectoryError\<close>.
\<close>

theorem win_decision:
  assumes "\<not> (skip \<and> is_marked_d src)"
    and "mark_name src (target_ext src fmt) = Inr final"
    and "safe_tmp_name final = Inr tmp"
    and "transcode codec src tmp q bk fs = (fs2, Inr (s, t))"
  shows "stat_size fs src = Inr s \<and> stat_size fs2 tmp = Inr t
         \<and> (if (if fmt = ''keep'' then t < s else True)
             then (if is_dir fs2 final
                   then snd (bake_one codec src fmt q del bk skip fs) = Inl IsADirectoryError
                   else snd (bake_one codec src fmt q del bk skip fs)
                          = Inr (True, Baked (name src) (name final) s t, s, t))
             else snd (bake_one codec src fmt q del bk skip fs)
                    = Inr (False, KeptOriginal (name src), s, s))"
proof -
  note ne = mark_name_src_nonempty[OF assms(2)] safe_tmp_name_nonempty[OF assms(3)]
  have sz: "stat_size fs src = Inr s" "stat_size fs2 tmp = Inr t"
    using transcode_sizes[OF assms(4)] ne by simp_all
  show ?thesis
  proof (cases "fmt = ''keep'' \<longrightarrow> t < s")
    case win: True
    show ?thesis
    proof (cases "is_dir fs2 final")
      case True
      from bake_win_dir[OF assms win True, of del] win True sz show ?thesis
        by (cases "fmt = ''keep''") auto
    next
      case False
      from bake_win[OF assms win False, of del] win False sz show ?thesis
        by (cases "fmt = ''keep''") auto
    qed
  next
    case False
    then have k: "fmt = ''keep''" "\<not> t < s" by auto
    from bake_keep[OF assms k, of del] k sz show ?thesis by auto
  qed
qed

theorem win_decision_witness:
  "snd (bake_one example_codec [''d'', ''a.jpg''] ''keep'' 85 False None True example_fs)
     = Inr (True, Baked ''a.jpg'' ''a[D].jpg'' 100 90, 100, 90)
   \<and> snd (bake_one example_codec [''d'', ''b.jpg''] ''keep'' 85 False None True example_fs)
     = Inr (False, KeptOriginal ''b.jpg'', 200, 200)
   \<and> snd (bake_one example_codec [''d'', ''c.jpg''] ''keep'' 85 False None True example_fs)
     = Inr (False, KeptOriginal ''c.jpg'', 50, 50)
   \<and> snd (bake_one example_codec [''d'', ''b.jpg''] ''webp'' 85 False None True example_fs)
     = Inr (True, Baked ''b.jpg'' ''b[D].webp'' 200 250, 200, 250)
   \<and> snd (bake_one example_codec [''d'', ''b.jpg''] ''keep'' 85 False None True
            (example_fs @ [([''d'', ''b[D].jpg''], Dir)]))
     = Inr (False, KeptOriginal ''b.jpg'', 200, 200)
   \<and> snd (bake_one example_codec [''d'', ''b.jpg''] ''webp'' 85 False None True
            (example_fs @ [([''d'', ''b[D].webp''], Dir)]))
     = Inl IsADirectoryError"
proof -
  have a: "snd (bake_one example_codec [''d'', ''a.jpg''] ''keep'' 85 False None True example_fs)
     = Inr (True, Baked ''a.jpg'' ''a[D].jpg'' 100 90, 100, 90)"
    using win_decision[OF ex_unmarked_a ex_mark_a ex_tmp_a ex_transcode_a, of False] ex_nodir_a
    by (simp add: name_def)
  have b: "snd (bake_one example_codec [''d'', ''b.jpg''] ''keep'' 85 False None True example_fs)
     = Inr (False, KeptOriginal ''b.jpg'', 200, 200)"
    using win_decision[OF ex_unmarked_b ex_mark_b ex_tmp_b ex_transcode_b, of False]
    by (simp add: name_def)
  have c: "snd (bake_one example_codec [''d'', ''c.jpg''] ''keep'' 85 False None True example_fs)
     = Inr (False, KeptOriginal ''c.jpg'', 50, 50)"
    using win_decision[OF ex_unmarked_c ex_mark_c ex_tmp_c ex_transcode_c, of False]
    by (simp add: name_def)
  have bw: "snd (bake_one example_codec [''d'', ''b.jpg''] ''webp'' 85 False None True example_fs)
     = Inr (True, Baked ''b.jpg'' ''b[D].webp'' 200 250, 200, 250)"
    using win_decision[OF ex_unmarked_b ex_mark_bw ex_tmp_bw ex_transcode_bw, of False]
      ex_nodir_bw
    by (simp add: name_def)
  have bd: "snd (bake_one example_codec [''d'', ''b.jpg''] ''keep'' 85 False None True
            (example_fs @ [([''d'', ''b[D].jpg''], Dir)]))
     = Inr (False, KeptOriginal ''b.jpg'', 200, 200)"
    using win_decision[OF ex_unmarked_b ex_mark_b ex_tmp_b ex_transcode_b_dir, of False]
    by (simp add: name_def)
  have bwd: "snd (bake_one example_codec [''d'', ''b.jpg''] ''webp'' 85 False None True
            (example_fs @ [([''d'', ''b[D].webp''], Dir)]))
     = Inl IsADirectoryError"
    using win_decision[OF ex_unmarked_b ex_mark_bw ex_tmp_bw ex_transcode_bw_dir, of False]
      ex_dir_bw
    by simp
  from a b c bw bd bwd show ?thesis by blast
qed

text \<open>
  Claim C3, as written, fails when a directory sits at the final marked path: the attempt
  wins the decision (a format change), the removal of what is at the final path raises,
  the outcome is not \<open>Won\<close>, and the temp file is still there.
\<close>

theorem win_blocked_by_directory_counterexample:
  "transcode example_codec [''d'', ''c.jpg''] [''d'', ''c[D].tmp.png''] 85 None
       (example_fs @ [([''d'', ''c[D].png''], Dir)])
     = (example_fs @ [([''d'', ''c[D].png''], Dir),
                       ([''d'', ''c[D].tmp.png''], File (replicate 50 7))], Inr (50, 50))
   \<and> bake_one example_codec [''d'', ''c.jpg''] ''png'' 85 True None True
       (example_fs @ [([''d'', ''c[D].png''], Dir)])
     = (example_fs @ [([''d'', ''c[D].png''], Dir),
                       ([''d'', ''c[D].tmp.png''], File (replicate 50 7))],
        Inl IsADirectoryError)
   \<and> file_at (example_fs @ [([''d'', ''c[D].png''], Dir),
                       ([''d'', ''c[D].tmp.png''], File (replicate 50 7))])
        [''d'', ''c[D].tmp.png'']
     = Some (replicate 50 7)"
  by (simp add: bake_one_def commit_win_def transcode_def save_image_to_tmp_def fs_eval
      path_eval example_codec_def example_fs_def reencode_def Let_def)

text \<open>
  Claim C3, amended. A winning attempt runs the commit block on the state the re-encoding
  left. With no directory at the final path it returns \<open>Won\<close> with the size of the source
  and the size of the temp file; afterwards the final path holds exactly one entry, the
  bytes that were in the temp file, whatever was there before; the temp path holds
  nothing; the original is gone when \<open>delete_original_on_win\<close> is set and is the same file
  as before otherwise. With a directory at the final path the attempt raises
  \<^verbatim>\<open>IsADirectoryError\<close>. And the commit block with deletion set, started in any state where
  the original is already missing, still returns \<open>Won\<close>: the missing original is no error.
\<close>

theorem win_commit:
  assumes "\<not> (skip \<and> is_marked_d src)"
    and "mark_name src (target_ext src fmt) = Inr final"
    and "safe_tmp_name final = Inr tmp"
    and "transcode codec src tmp q bk fs = (fs2, Inr (s, t))"
    and "fmt = ''keep'' \<longrightarrow> t < s"
  shows "bake_one codec src fmt q del bk skip fs = commit_win src final tmp s t del fs2
         \<and> stat_size fs src = Inr s
         \<and> (is_dir fs2 final \<longrightarrow>
               snd (bake_one codec src fmt q del bk skip fs) = Inl IsADirectoryError)
         \<and> (\<not> is_dir fs2 final \<longrightarrow>
               (\<exists>fs' out.
                  bake_one codec src fmt q del bk skip fs
                    = (fs', Inr (True, Baked (name src) (name final) s t, s, t))
                  \<and> file_at fs2 tmp = Some out \<and> length out = t
                  \<and> file_at fs' final = Some out \<and> entries_at fs' final = 1
                  \<and> map_of fs' tmp = None
                  \<and> (if del then map_of fs' src = None
                      else file_at fs' src = file_at fs src \<and> file_at fs src \<noteq> None)))
         \<and> (\<forall>fsx out.
               map_of fsx src = None \<and> map_of fsx tmp = Some (File out) \<and> \<not> is_dir fsx final \<longrightarrow>
               (\<exists>fs'. commit_win src final tmp s t True fsx
                         = (fs', Inr (True, Baked (name src) (name final) s t, s, t))
                      \<and> map_of fs' final = Some (File out)
                      \<and> map_of fs' tmp = None \<and> map_of fs' src = None))"
proof -
  note ne = mark_name_src_nonempty[OF assms(2)] safe_tmp_name_nonempty[OF assms(3)]
  have sz: "stat_size fs src = Inr s" "stat_size fs2 tmp = Inr t"
    using transcode_sizes[OF assms(4)] ne by simp_all
  have st: "src \<noteq> tmp" using tmp_ne_src[OF assms(2,3)] by auto
  have sf: "src \<noteq> final" using final_ne_src[OF assms(2)] by auto
  have tf: "tmp \<noteq> final" using tmp_ne_final[OF assms(3)] by auto
  have block: "bake_one codec src fmt q del bk skip fs = commit_win src final tmp s t del fs2"
    by (rule bake_one_commit[OF assms])
  have dir: "snd (bake_one codec src fmt q del bk skip fs) = Inl IsADirectoryError"
    if "is_dir fs2 final"
    using bake_win_dir[OF assms that, of del] by simp
  have won: "\<exists>fs' out.
                  bake_one codec src fmt q del bk skip fs
                    = (fs', Inr (True, Baked (name src) (name final) s t, s, t))
                  \<and> file_at fs2 tmp = Some out \<and> length out = t
                  \<and> file_at fs' final = Some out \<and> entries_at fs' final = 1
                  \<and> map_of fs' tmp = None
                  \<and> (if del then map_of fs' src = None
                      else file_at fs' src = file_at fs src \<and> file_at fs src \<noteq> None)"
    if nd: "\<not> is_dir fs2 final"
  proof -
    from transcode_Inr[OF assms(4) ne(2)] obtain b where
      b: "file_at fs src = Some b" and keep: "file_at fs2 src = file_at fs src"
      using st by blast
    from bake_win[OF assms nd, of del] obtain fs' out where
      res: "bake_one codec src fmt q del bk skip fs
              = (fs', Inr (True, Baked (name src) (name final) s t, s, t))"
      and out: "map_of fs2 tmp = Some (File out)"
      and fin: "map_of fs' final = Some (File out)" "map_of fs' tmp = None"
         "entries_at fs' final = 1"
      and rest: "\<And>p. p \<noteq> final \<Longrightarrow> p \<noteq> tmp \<Longrightarrow>
                  map_of fs' p = (if del \<and> p = src then None else map_of fs2 p)"
      by blast
    have len: "length out = t" using sz(2) out ne(2) by (simp add: stat_size_def)
    have orig: "if del then map_of fs' src = None
                 else file_at fs' src = file_at fs src \<and> file_at fs src \<noteq> None"
      using rest[OF sf st] keep b by (simp add: file_at_def)
    from res out len fin orig show ?thesis
      by (auto simp: file_at_def)
  qed
  have miss: "\<exists>fs'. commit_win src final tmp s t True fsx
                         = (fs', Inr (True, Baked (name src) (name final) s t, s, t))
                      \<and> map_of fs' final = Some (File out)
                      \<and> map_of fs' tmp = None \<and> map_of fs' src = None"
    if m: "map_of fsx src = None" and o: "map_of fsx tmp = Some (File out)"
      and nd: "\<not> is_dir fsx final" for fsx out
  proof -
    from m have srcnd: "map_of fsx src \<noteq> Some Dir" by simp
    from commit_win_ok[OF _ _ tf sf o nd srcnd, of s t True] ne obtain fs' where
      r: "commit_win src final tmp s t True fsx
            = (fs', Inr (True, Baked (name src) (name final) s t, s, t))"
      and f: "map_of fs' final = Some (File out)" "map_of fs' tmp = None"
      and rest: "\<And>p. p \<noteq> final \<Longrightarrow> p \<noteq> tmp \<Longrightarrow>
                  map_of fs' p = (if True \<and> p = src then None else map_of fsx p)"
      by auto
    from rest[OF sf st] have "map_of fs' src = None" by simp
    with r f show ?thesis by blast
  qed
  from block sz(1) dir won miss show ?thesis by blast
qed

theorem win_commit_witness:
  "(\<exists>fs'. bake_one example_codec [''d'', ''a.jpg''] ''keep'' 85 True None True example_fs
            = (fs', Inr (True, Baked ''a.jpg'' ''a[D].jpg'' 100 90, 100, 90))
         \<and> file_at fs' [''d'', ''a[D].jpg''] = Some (replicate 90 0)
         \<and> entries_at fs' [''d'', ''a[D].jpg''] = 1
         \<and> map_of fs' [''d'', ''a[D].tmp.jpg''] = None
         \<and> map_of fs' [''d'', ''a.jpg''] = None)
   \<and> (\<exists>fs'. commit_win [''d'', ''a.jpg''] [''d'', ''a[D].jpg''] [''d'', ''a[D].tmp.jpg''] 100 90
              True [([''d'', ''a[D].tmp.jpg''], File [7, 7])]
            = (fs', Inr (True, Baked ''a.jpg'' ''a[D].jpg'' 100 90, 100, 90))
         \<and> map_of fs' [''d'', ''a[D].jpg''] = Some (File [7, 7]))
   \<and> snd (bake_one example_codec [''d'', ''c.jpg''] ''png'' 85 True None True
            (example_fs @ [([''d'', ''c[D].png''], Dir)]))
       = Inl IsADirectoryError"
proof -
  have w: "''keep'' = ''keep'' \<longrightarrow> (90::nat) < 100" by simp
  note inst = win_commit[OF ex_unmarked_a ex_mark_a ex_tmp_a ex_transcode_a w, of True]
  from inst[THEN conjunct2, THEN conjunct2, THEN conjunct2, THEN conjunct1] ex_nodir_a
  have 1: "\<exists>fs'. bake_one example_codec [''d'', ''a.jpg''] ''keep'' 85 True None True example_fs
            = (fs', Inr (True, Baked ''a.jpg'' ''a[D].jpg'' 100 90, 100, 90))
         \<and> file_at fs' [''d'', ''a[D].jpg''] = Some (replicate 90 0)
         \<and> entries_at fs' [''d'', ''a[D].jpg''] = 1
         \<and> map_of fs' [''d'', ''a[D].tmp.jpg''] = None
         \<and> map_of fs' [''d'', ''a.jpg''] = None"
    by (auto simp: ex_file_tmp_a name_def)
  have pre: "map_of [([''d'', ''a[D].tmp.jpg''], File [7, 7])] [''d'', ''a.jpg''] = None
     \<and> map_of [([''d'', ''a[D].tmp.jpg''], File [7, 7])] [''d'', ''a[D].tmp.jpg''] = Some (File [7, 7])
     \<and> \<not> is_dir [([''d'', ''a[D].tmp.jpg''], File [7, 7])] [''d'', ''a[D].jpg'']"
    by (simp add: is_dir_def)
  from inst[THEN conjunct2, THEN conjunct2, THEN conjunct2, THEN conjunct2, rule_format,
      OF pre]
  have 2: "\<exists>fs'. commit_win [''d'', ''a.jpg''] [''d'', ''a[D].jpg''] [''d'', ''a[D].tmp.jpg''] 100 90
              True [([''d'', ''a[D].tmp.jpg''], File [7, 7])]
            = (fs', Inr (True, Baked ''a.jpg'' ''a[D].jpg'' 100 90, 100, 90))
         \<and> map_of fs' [''d'', ''a[D].jpg''] = Some (File [7, 7])"
    by (auto simp: name_def)
  have wp: "''png'' = ''keep'' \<longrightarrow> (50::nat) < 50" by simp
  from win_commit[OF ex_unmarked_c ex_mark_cp ex_tmp_cp ex_transcode_cp_dir wp, of True,
      THEN conjunct2, THEN conjunct2, THEN conjunct1] ex_dir_cp
  have 3: "snd (bake_one example_codec [''d'', ''c.jpg''] ''png'' 85 True None True
            (example_fs @ [([''d'', ''c[D].png''], Dir)]))
       = Inl IsADirectoryError"
    by simp
  from 1 2 3 show ?thesis by blast
qed

text \<open>
  Claim C4. In keep mode, when the temp file is not strictly smaller than the source, the
  attempt returns \<open>KeptOriginal\<close> with the size of the source as both sizes; afterwards
  the temp path holds nothing, the original holds the bytes it held before, the final
  marked path holds the file it held before (none, when there was none), and so does
  every path apart from the temp path and the backup of the original.
\<close>

theorem keep_original:
  assumes "\<not> (skip \<and> is_marked_d src)"
    and "mark_name src (target_ext src fmt) = Inr final"
    and "safe_tmp_name final = Inr tmp"
    and "transcode codec src tmp q bk fs = (fs2, Inr (s, t))"
    and "fmt = ''keep''"
    and "\<not> t < s"
  shows "\<exists>fs'.
           bake_one codec src fmt q del bk skip fs
             = (fs', Inr (False, KeptOriginal (name src), s, s))
           \<and> stat_size fs src = Inr s \<and> stat_size fs2 tmp = Inr t
           \<and> map_of fs' tmp = None
           \<and> file_at fs' src = file_at fs src \<and> file_at fs src \<noteq> None
           \<and> file_at fs' final = file_at fs final
           \<and> (\<forall>p. p \<noteq> tmp \<longrightarrow> name p \<noteq> name src \<longrightarrow> file_at fs' p = file_at fs p)"
proof -
  note ne = mark_name_src_nonempty[OF assms(2)] safe_tmp_name_nonempty[OF assms(3)]
  have sz: "stat_size fs src = Inr s" "stat_size fs2 tmp = Inr t"
    using transcode_sizes[OF assms(4)] ne by simp_all
  have st: "src \<noteq> tmp" using tmp_ne_src[OF assms(2,3)] by auto
  have ft: "final \<noteq> tmp" using tmp_ne_final[OF assms(3)] by auto
  have fn: "name final \<noteq> name src" by (rule final_ne_src[OF assms(2)])
  from transcode_Inr[OF assms(4) ne(2)] obtain b where
    b: "file_at fs src = Some b"
    and frame: "\<And>p. p \<noteq> tmp \<Longrightarrow> name p \<noteq> name src \<or> p = src \<Longrightarrow> file_at fs2 p = file_at fs p"
    by blast
  from bake_keep[OF assms, of del] obtain fs' where
    res: "bake_one codec src fmt q del bk skip fs
            = (fs', Inr (False, KeptOriginal (name src), s, s))"
    and m: "map_of fs' = (map_of fs2)(tmp := None)"
    by blast
  have same: "file_at fs' p = file_at fs2 p" if "p \<noteq> tmp" for p
    using that m by (simp add: file_at_def)
  have "map_of fs' tmp = None" using m by simp
  moreover have "file_at fs' src = file_at fs src" using same[OF st] frame[OF st] by simp
  moreover have "file_at fs' final = file_at fs final" using same[OF ft] frame[OF ft] fn by simp
  moreover have "\<forall>p. p \<noteq> tmp \<longrightarrow> name p \<noteq> name src \<longrightarrow> file_at fs' p = file_at fs p"
    using same frame by simp
  ultimately show ?thesis using res sz b by auto
qed

theorem keep_original_witness:
  "(\<exists>fs'. bake_one example_codec [''d'', ''b.jpg''] ''keep'' 85 True None True example_fs
            = (fs', Inr (False, KeptOriginal ''b.jpg'', 200, 200))
         \<and> map_of fs' [''d'', ''b[D].tmp.jpg''] = None
         \<and> file_at fs' [''d'', ''b.jpg''] = Some (replicate 200 7)
         \<and> file_at fs' [''d'', ''b[D].jpg''] = None)
   \<and> (\<exists>fs'. bake_one example_codec [''d'', ''c.jpg''] ''keep'' 85 True None True example_fs
            = (fs', Inr (False, KeptOriginal ''c.jpg'', 50, 50))
         \<and> map_of fs' [''d'', ''c[D].tmp.jpg''] = None
         \<and> file_at fs' [''d'', ''c.jpg''] = Some (replicate 50 7)
         \<and> file_at fs' [''d'', ''c[D].jpg''] = None)"
proof -
  have k: "''keep'' = ''keep''" by simp
  have nb: "\<not> (250::nat) < 200" and nc: "\<not> (50::nat) < 50" by simp_all
  have fb: "file_at example_fs [''d'', ''b.jpg''] = Some (replicate 200 7)"
    "file_at example_fs [''d'', ''b[D].jpg''] = None"
    "file_at example_fs [''d'', ''c.jpg''] = Some (replicate 50 7)"
    "file_at example_fs [''d'', ''c[D].jpg''] = None"
    by (simp_all add: file_at_def example_fs_def)
  from keep_original[OF ex_unmarked_b ex_mark_b ex_tmp_b ex_transcode_b k nb, of True]
  have b: "\<exists>fs'. bake_one example_codec [''d'', ''b.jpg''] ''keep'' 85 True None True example_fs
            = (fs', Inr (False, KeptOriginal ''b.jpg'', 200, 200))
         \<and> map_of fs' [''d'', ''b[D].tmp.jpg''] = None
         \<and> file_at fs' [''d'', ''b.jpg''] = Some (replicate 200 7)
         \<and> file_at fs' [''d'', ''b[D].jpg''] = None"
    by (auto simp: fb name_def)
  from keep_original[OF ex_unmarked_c ex_mark_c ex_tmp_c ex_transcode_c k nc, of True]
  have c: "\<exists>fs'. bake_one example_codec [''d'', ''c.jpg''] ''keep'' 85 True None True example_fs
            = (fs', Inr (False, KeptOriginal ''c.jpg'', 50, 50))
         \<and> map_of fs' [''d'', ''c[D].tmp.jpg''] = None
         \<and> file_at fs' [''d'', ''c.jpg''] = Some (replicate 50 7)
         \<and> file_at fs' [''d'', ''c[D].jpg''] = None"
    by (auto simp: fb name_def)
  from b c show ?thesis by blast
qed

text \<open>
  Claim C2 fails on the code: \<open>bake_one\<close> has no handler around its steps. When the save
  raises after writing part of the temp file, the attempt fails and the partial file stays
  at the temp path; when the source cannot be opened, the attempt fails before the stale
  temp file of an earlier run is removed; and when a directory sits at the final path of
  a winning attempt, the attempt fails and the finished temp file stays.
\<close>

theorem failed_attempt_leaves_temp_file:
  "bake_one truncating_codec [''d'', ''a.jpg''] ''keep'' 85 False None True example_fs
     = (example_fs @ [([''d'', ''a[D].tmp.jpg''], File [0])], Inl CodecError)
   \<and> file_at (example_fs @ [([''d'', ''a[D].tmp.jpg''], File [0])]) [''d'', ''a[D].tmp.jpg'']
       = Some [0]
   \<and> bake_one example_codec [''d'', ''x.jpg''] ''keep'' 85 False None True stale_fs
       = (stale_fs, Inl CodecError)
   \<and> file_at stale_fs [''d'', ''x[D].tmp.jpg''] = Some [1, 2, 3]
   \<and> bake_one example_codec [''d'', ''a.jpg''] ''keep'' 85 False None True
         (example_fs @ [([''d'', ''a[D].jpg''], Dir)])
       = (example_fs @ [([''d'', ''a[D].jpg''], Dir),
                         ([''d'', ''a[D].tmp.jpg''], File (replicate 90 0))],
          Inl IsADirectoryError)"
  by (simp add: bake_one_def transcode_def save_image_to_tmp_def fs_eval path_eval
      example_codec_def truncating_codec_def example_fs_def stale_fs_def reencode_def
      commit_win_def Let_def)

section \<open>The two batch drivers\<close>

text \<open>
  The example of the specification: three files of 100, 200 and 50 bytes that re-encode to
  90, 250 and 50 bytes, in keep mode, give one win and two kept originals.
\<close>

lemma spec_example_batch:
  "snd (run_folder_mode example_codec [''d''] ''keep'' 85 False None True False example_fs)
     = Inr \<lparr>total = 3, baked = 1, kept = 2, errors = 0, size_before = 350, size_after = 440\<rparr>"
  by code_simp

text \<open>
  Claim C9, as written, fails: with skip-marked set, the single-folder driver passes a
  marked candidate to \<open>bake_one\<close> and counts the skip as kept, the multi-root driver drops
  it from its list. On the same folder with one marked image the summaries differ.
\<close>

theorem drivers_differ_on_marked_counterexample:
  "run_folder_mode example_codec dcim ''keep'' 85 False None True True marked_fs
     = (marked_fs, Inr \<lparr>total = 1, baked = 0, kept = 1, errors = 0,
                         size_before = 3, size_after = 3\<rparr>)
   \<and> run_all_mode example_codec [''home''] ''keep'' 85 False None True [] marked_fs
     = (marked_fs, Inr \<lparr>total = 0, baked = 0, kept = 0, errors = 0,
                         size_before = 3, size_after = 3\<rparr>)"
  by (simp add: driver_eval marked_fs_def fs_eval path_eval bake_one_def Let_def)

text \<open>
  Claim C9, amended. The two drivers run the same loop: on the same list of candidates,
  with the same options and from the same state, the loops make the same calls to
  \<open>bake_one\<close> and end with the same file system and the same three counters. The lists
  differ when skip-marked is set: over one root the multi-root driver takes the recursive
  scan without its marked paths, and the single-folder loop on a list ends with the file
  system and the won and error counters that the multi-root loop reaches on the list
  without its marked paths, and with a kept counter larger by the number of marked paths.
  So when the one default root that exists is the folder given to the single-folder
  driver, scanned recursively, both drivers return, with the same file system and the same
  summary, except that the single-folder total and kept tally are larger by the number of
  marked images in the scan when skip-marked is set.
\<close>

theorem drivers_agree_up_to_marked:
  "all_loop codec fmt q del bk skip files st = folder_loop codec fmt q del bk skip files st
   \<and> all_mode_files fs [r] skip =
       (if skip then filter (\<lambda>p. \<not> is_marked_d p) (iter_images_recursive fs r)
        else iter_images_recursive fs r)
   \<and> folder_loop codec fmt q del bk True files (fs, b, k, e) =
       (case all_loop codec fmt q del bk True (filter (\<lambda>p. \<not> is_marked_d p) files)
               (fs, b, k, e) of
          (fs', b', k', e') \<Rightarrow> (fs', b', k' + length (filter is_marked_d files), e'))
   \<and> (default_all_roots home fs = [r] \<and> is_dir fs r \<and> \<not> (del \<and> strip confirm \<noteq> required) \<longrightarrow>
        (\<exists>fs' sm.
           run_all_mode codec home fmt q del bk skip confirm fs = (fs', Inr sm)
           \<and> run_folder_mode codec r fmt q del bk skip True fs
               = (fs', Inr (sm\<lparr>total := total sm + (if skip then length (filter is_marked_d (iter_images_recursive fs r)) else 0),
                               kept := kept sm + (if skip then length (filter is_marked_d (iter_images_recursive fs r)) else 0)\<rparr>))))"
  using loops_same[of codec fmt q del bk skip files st]
    loops_same[of codec fmt q del bk True "filter (\<lambda>p. \<not> is_marked_d p) files" "(fs, b, k, e)"]
    all_mode_files_single[of fs r skip]
    folder_loop_marked[of codec fmt q del bk files fs b k e]
    drivers_on_one_root[of home fs r del confirm codec fmt q bk skip]
  by simp

theorem drivers_agree_up_to_marked_witness:
  "all_mode_files marked_fs [dcim] True = []
   \<and> iter_images_recursive marked_fs dcim = [dcim @ [''old[D].jpg'']]
   \<and> all_loop example_codec ''keep'' 85 False None True [] (marked_fs, 0, 0, 0)
       = (marked_fs, 0, 0, 0)
   \<and> folder_loop example_codec ''keep'' 85 False None True [dcim @ [''old[D].jpg'']]
         (marked_fs, 0, 0, 0)
       = (marked_fs, 0, 1, 0)
   \<and> default_all_roots [''home''] marked_fs = [dcim] \<and> is_dir marked_fs dcim
   \<and> (\<exists>fs' sm.
         run_all_mode example_codec [''home''] ''keep'' 85 False None True [] marked_fs
           = (fs', Inr sm)
         \<and> run_folder_mode example_codec dcim ''keep'' 85 False None True True marked_fs
             = (fs', Inr (sm\<lparr>total := total sm + 1, kept := kept sm + 1\<rparr>)))"
proof -
  have scan: "iter_images_recursive marked_fs dcim = [dcim @ [''old[D].jpg'']]"
    by (simp add: driver_eval marked_fs_def fs_eval path_eval)
  have m: "is_marked_d (dcim @ [''old[D].jpg''])"
    by (simp add: path_eval dcim_def)
  have r: "default_all_roots [''home''] marked_fs = [dcim]"
    by (simp add: default_all_roots_def marked_fs_def dcim_def path_exists_def)
  have d: "is_dir marked_fs dcim"
    by (simp add: is_dir_def marked_fs_def dcim_def)
  from drivers_agree_up_to_marked[of example_codec "''keep''" 85 False None True
      "[dcim @ [''old[D].jpg'']]" "(marked_fs, 0, 0, 0)" marked_fs dcim 0 0 0 "[''home'']" "[]"]
    scan m r d
  show ?thesis by simp
qed

text \<open>
  Claim C5, as written, fails twice. The confirmation is compared after \<^verbatim>\<open>strip()\<close>: a phrase
  with a blank in front is not the exact phrase, and the driver runs. And a confirmed run
  (or one without deletion) does not always run the batch: when none of the default roots
  exists, the driver exits with an error.
\<close>

theorem all_mode_gate_counterexample:
  "CHR '' '' # required \<noteq> required
   \<and> run_all_mode example_codec [''home''] ''keep'' 85 True None True (CHR '' '' # required)
         empty_dcim_fs
       = (empty_dcim_fs, Inr \<lparr>total = 0, baked = 0, kept = 0, errors = 0,
                               size_before = 0, size_after = 0\<rparr>)
   \<and> run_all_mode example_codec [''home''] ''keep'' 85 False None True [] []
       = ([], Inl (SystemExit ''No default image roots found. (Need Termux storage access?)''))"
  by (simp add: driver_eval empty_dcim_fs_def fs_eval path_eval Let_def)

text \<open>
  Claim C5, amended. With deletion enabled the multi-root driver refuses, with exit status
  1 and the file system untouched, exactly when the confirmation differs from the phrase
  after leading and trailing white space is stripped. Past that gate (deletion disabled,
  or the phrase given) it exits with an error, the file system untouched, when none of the
  default roots exists; otherwise the batch runs to completion and returns its summary, in
  which every candidate is counted once as won, kept or error.
\<close>

theorem all_mode_gate:
  "(del \<and> strip confirm \<noteq> required \<longrightarrow>
      run_all_mode codec home fmt q del bk skip confirm fs = (fs, Inl (SystemExit refusal))
      \<and> exit_status (SystemExit refusal) = 1)
   \<and> (\<not> (del \<and> strip confirm \<noteq> required) \<longrightarrow>
        (default_all_roots home fs = [] \<longrightarrow>
           run_all_mode codec home fmt q del bk skip confirm fs
             = (fs, Inl (SystemExit ''No default image roots found. (Need Termux storage access?)'')))
        \<and> (default_all_roots home fs \<noteq> [] \<longrightarrow>
             (\<exists>fs' sm. run_all_mode codec home fmt q del bk skip confirm fs = (fs', Inr sm)
                \<and> total sm = length (all_mode_files fs (default_all_roots home fs) skip)
                \<and> baked sm + kept sm + errors sm = total sm)))"
proof -
  have refuse: "run_all_mode codec home fmt q del bk skip confirm fs = (fs, Inl (SystemExit refusal))"
    if "del \<and> strip confirm \<noteq> required"
    using that by (simp add: run_all_mode_def)
  have noroots: "run_all_mode codec home fmt q del bk skip confirm fs
             = (fs, Inl (SystemExit ''No default image roots found. (Need Termux storage access?)''))"
    if g: "\<not> (del \<and> strip confirm \<noteq> required)" and r: "default_all_roots home fs = []"
  proof -
    from g have gF: "(del \<and> strip confirm \<noteq> required) = False" by blast
    show ?thesis unfolding run_all_mode_def gF if_False using r by (simp add: Let_def)
  qed
  have runs: "\<exists>fs' sm. run_all_mode codec home fmt q del bk skip confirm fs = (fs', Inr sm)
                \<and> total sm = length (all_mode_files fs (default_all_roots home fs) skip)
                \<and> baked sm + kept sm + errors sm = total sm"
    if g: "\<not> (del \<and> strip confirm \<noteq> required)" and r: "default_all_roots home fs \<noteq> []"
  proof -
    from g have gF: "(del \<and> strip confirm \<noteq> required) = False" by blast
    let ?files = "all_mode_files fs (default_all_roots home fs) skip"
    obtain fs' b k e where l: "all_loop codec fmt q del bk skip ?files (fs, 0, 0, 0) = (fs', b, k, e)"
      by (cases "all_loop codec fmt q del bk skip ?files (fs, 0, 0, 0)")
    have "run_all_mode codec home fmt q del bk skip confirm fs
            = (fs', Inr \<lparr>total = length ?files, baked = b, kept = k, errors = e,
                 size_before = sum_list (map (folder_size_bytes fs) (default_all_roots home fs)),
                 size_after = sum_list (map (folder_size_bytes fs') (default_all_roots home fs))\<rparr>)"
      unfolding run_all_mode_def gF if_False using r l by (simp add: Let_def)
    with all_loop_total[OF l] show ?thesis by simp
  qed
  from refuse noroots runs show ?thesis by simp
qed

theorem all_mode_gate_witness:
  "strip [] \<noteq> required
   \<and> run_all_mode example_codec [''home''] ''keep'' 85 True None True [] marked_fs
       = (marked_fs, Inl (SystemExit refusal))
   \<and> strip (CHR '' '' # required) = required
   \<and> default_all_roots [''home''] marked_fs = [dcim]
   \<and> (\<exists>fs' sm. run_all_mode example_codec [''home''] ''keep'' 85 True None True
                   (CHR '' '' # required) marked_fs = (fs', Inr sm))
   \<and> default_all_roots [''home''] [] = []
   \<and> run_all_mode example_codec [''home''] ''keep'' 85 False None True [] []
       = ([], Inl (SystemExit ''No default image roots found. (Need Termux storage access?)''))"
proof -
  have s0: "strip [] \<noteq> required" by (simp add: strip_def required_def)
  have s1: "strip (CHR '' '' # required) = required"
    by (simp add: strip_def required_def is_space_def)
  have r1: "default_all_roots [''home''] marked_fs = [dcim]"
    by (simp add: default_all_roots_def marked_fs_def dcim_def path_exists_def)
  have r0: "default_all_roots [''home''] [] = []"
    by (simp add: default_all_roots_def path_exists_def)
  from all_mode_gate[of True "[]" example_codec "[''home'']" "''keep''" 85 None True marked_fs] s0
  have a: "run_all_mode example_codec [''home''] ''keep'' 85 True None True [] marked_fs
       = (marked_fs, Inl (SystemExit refusal))"
    by simp
  from all_mode_gate[of True "CHR '' '' # required" example_codec "[''home'']" "''keep''" 85 None
      True marked_fs] s1 r1
  have b: "\<exists>fs' sm. run_all_mode example_codec [''home''] ''keep'' 85 True None True
                   (CHR '' '' # required) marked_fs = (fs', Inr sm)"
    by auto
  from all_mode_gate[of False "[]" example_codec "[''home'']" "''keep''" 85 None True "[]"] r0
  have c: "run_all_mode example_codec [''home''] ''keep'' 85 False None True [] []
       = ([], Inl (SystemExit ''No default image roots found. (Need Termux storage access?)''))"
    by simp
  from s0 a s1 r1 b r0 c show ?thesis by blast
qed

end
